theory Spec2Isabelle
  imports Main "HOL-Library.Word" "HOL-Library.Multiset"
begin

section \<open>The Azul game model (core/azul_model.py)\<close>

text \<open>
  The model follows \<^verbatim>\<open>src/core/azul_model.py\<close>. Objects mutated in place become
  records that are passed in and returned; every \<^verbatim>\<open>assert\<close>, failing index and failing
  dictionary lookup is a branch returning \<open>Inl\<close> of an error.

  The module \<^verbatim>\<open>azul_utils\<close> (the enum \<^verbatim>\<open>Tile\<close>, the enum \<^verbatim>\<open>Action\<close>, the classes
  \<^verbatim>\<open>TileGrab\<close> and \<^verbatim>\<open>AgentTrace\<close>) is imported by the model but is not among the
  sources; what the model needs of it is written down below from its uses.
\<close>

datatype error = AssertionError | IndexError | KeyError | ValueError

subsection \<open>Python list indexing\<close>

text \<open>\<^verbatim>\<open>xs[i]\<close>: a negative index counts from the end, anything else out of range raises.\<close>

definition py_idx :: "nat \<Rightarrow> int \<Rightarrow> nat option" where
  "py_idx n i =
     (if 0 \<le> i \<and> i < int n then Some (nat i)
      else if i < 0 \<and> - int n \<le> i then Some (nat (int n + i))
      else None)"

fun fold_e :: "('b \<Rightarrow> 'a \<Rightarrow> error + 'a) \<Rightarrow> 'b list \<Rightarrow> 'a \<Rightarrow> error + 'a" where
  "fold_e f [] s = Inr s"
| "fold_e f (x # xs) s = (case f x s of Inl e \<Rightarrow> Inl e | Inr s' \<Rightarrow> fold_e f xs s')"

subsection \<open>Tiles, grabs and actions (from azul\_utils, by use)\<close>

text \<open>
  Modelled from the spec: \<^verbatim>\<open>utils.Tile\<close> is the enumeration of the five tile colours
  ("one of N enumerated colors, e.g. 5"); \<^verbatim>\<open>for tile in utils.Tile\<close> visits them in the
  order of \<open>all_tiles\<close>, the order in which the commented grid scheme of
  \<^verbatim>\<open>AgentState.__init__\<close> lists row 0.
\<close>

datatype Tile = BLUE | YELLOW | RED | BLACK | WHITE

definition all_tiles :: "Tile list" where
  "all_tiles = [BLUE, YELLOW, RED, BLACK, WHITE]"

text \<open>
  Modelled from the spec: \<^verbatim>\<open>utils.TileGrab\<close> ("take N tiles of one color ... with a
  decomposition of how many of those tiles go to a specific pattern line versus overflow
  to the floor line"). A fresh \<^verbatim>\<open>TileGrab()\<close> has no pattern line (\<open>-1\<close>) and zero counts.
\<close>

record TileGrab =
  tile_type :: Tile
  number :: int
  pattern_line_dest :: int
  num_to_pattern_line :: int
  num_to_floor_line :: int

definition TileGrab_init :: "Tile \<Rightarrow> TileGrab" where
  "TileGrab_init t =
     \<lparr>tile_type = t, number = 0, pattern_line_dest = - 1,
      num_to_pattern_line = 0, num_to_floor_line = 0\<rparr>"

text \<open>
  Modelled from the spec: \<^verbatim>\<open>utils.Action\<close>, the tag of a take ("take N tiles of one color
  either from a specific factory or from the center"); the model uses its members
  \<^verbatim>\<open>TAKE_FROM_FACTORY\<close> and \<^verbatim>\<open>TAKE_FROM_CENTRE\<close>.
\<close>

datatype Action = TAKE_FROM_FACTORY | TAKE_FROM_CENTRE

text \<open>An action is one of the strings \<^verbatim>\<open>"ENDROUND"\<close>, \<^verbatim>\<open>"STARTROUND"\<close> or a triple
  \<^verbatim>\<open>(Action, factory id, TileGrab)\<close>; the factory id of a take from the centre is \<open>-1\<close>.\<close>

datatype action = ENDROUND | STARTROUND | Take Action int TileGrab

text \<open>
  Modelled from the spec: \<^verbatim>\<open>utils.AgentTrace\<close> is not described by the spec; its fields
  are taken from their uses in the model (\<^verbatim>\<open>len(actions)\<close>, \<^verbatim>\<open>actions[-1].append\<close>,
  \<^verbatim>\<open>round_scores[-1] = ...\<close>, \<^verbatim>\<open>bonuses = ...\<close>): two lists with one entry per round
  started and a number. \<^verbatim>\<open>StartRound\<close> opens the entries of a new round.
\<close>

record AgentTrace =
  actions :: "action list list"
  round_scores :: "int list"
  bonuses :: int

definition AgentTrace_init :: AgentTrace where
  "AgentTrace_init = \<lparr>actions = [], round_scores = [], bonuses = 0\<rparr>"

definition StartRound :: "AgentTrace \<Rightarrow> AgentTrace" where
  "StartRound tr = tr\<lparr>actions := actions tr @ [[]], round_scores := round_scores tr @ [0]\<rparr>"

subsection \<open>TileDisplay\<close>

record TileDisplay =
  tiles :: "Tile \<Rightarrow> int"
  total :: int

definition TileDisplay_init :: TileDisplay where
  "TileDisplay_init = \<lparr>tiles = (\<lambda>_. 0), total = 0\<rparr>"

definition ReactionTiles :: "TileDisplay \<Rightarrow> int \<Rightarrow> Tile \<Rightarrow> error + TileDisplay" where
  "ReactionTiles d n t =
     (if \<not> n > 0 then Inl AssertionError
      else let d' = d\<lparr>tiles := (tiles d)(t := tiles d t - n), total := total d - n\<rparr>
           in if \<not> tiles d' t \<ge> 0 then Inl AssertionError
              else if \<not> total d' \<ge> 0 then Inl AssertionError
              else Inr d')"

definition AddTiles :: "TileDisplay \<Rightarrow> int \<Rightarrow> Tile \<Rightarrow> error + TileDisplay" where
  "AddTiles d n t =
     (if \<not> n > 0 then Inl AssertionError
      else Inr (d\<lparr>tiles := (tiles d)(t := tiles d t + n), total := total d + n\<rparr>))"

subsection \<open>AgentState\<close>

text \<open>
  \<^verbatim>\<open>lines_tile[i] == -1\<close> (no colour) is \<open>None\<close>. \<^verbatim>\<open>grid_state\<close> is a 5 x 5 numpy array of
  0.0 / 1.0; the cells are modelled as integers (the sums the code forms over them are small
  whole numbers). \<^verbatim>\<open>lines_number\<close>, \<^verbatim>\<open>lines_tile\<close> have 5 entries, \<^verbatim>\<open>floor\<close> has 7; the
  code only ever replaces them by lists of the same length.
\<close>

record AgentState =
  aid :: int
  score :: int
  lines_number :: "int list"
  lines_tile :: "Tile option list"
  agent_trace :: AgentTrace
  grid_state :: "int list list"
  floor :: "int list"
  floor_tiles :: "Tile list"
  number_of :: "Tile \<Rightarrow> int"

definition GRID_SIZE :: nat where "GRID_SIZE = 5"

definition FLOOR_SCORES :: "int list" where
  "FLOOR_SCORES = [- 1, - 1, - 2, - 2, - 2, - 3, - 3]"

definition ROW_BONUS :: int where "ROW_BONUS = 2"
definition COL_BONUS :: int where "COL_BONUS = 7"
definition SET_BONUS :: int where "SET_BONUS = 10"

text \<open>\<^verbatim>\<open>grid_scheme[i][tile]\<close>: the column of colour \<open>tile\<close> in row \<open>i\<close>, the table written
  entry by entry in \<^verbatim>\<open>AgentState.__init__\<close>; it is never changed afterwards.\<close>

definition grid_scheme :: "nat \<Rightarrow> Tile \<Rightarrow> nat" where
  "grid_scheme i t =
     (case t of
        BLUE \<Rightarrow> [0, 1, 2, 3, 4] ! i
      | WHITE \<Rightarrow> [4, 0, 1, 2, 3] ! i
      | BLACK \<Rightarrow> [3, 4, 0, 1, 2] ! i
      | RED \<Rightarrow> [2, 3, 4, 0, 1] ! i
      | YELLOW \<Rightarrow> [1, 2, 3, 4, 0] ! i)"

definition AgentState_init :: "int \<Rightarrow> AgentState" where
  "AgentState_init i =
     \<lparr>aid = i, score = 0,
      lines_number = [0, 0, 0, 0, 0],
      lines_tile = [None, None, None, None, None],
      agent_trace = AgentTrace_init,
      grid_state = replicate 5 (replicate 5 0),
      floor = [0, 0, 0, 0, 0, 0, 0],
      floor_tiles = [],
      number_of = (\<lambda>_. 0)\<rparr>"

text \<open>\<^verbatim>\<open>AddToFloor(tiles)\<close>: the loop over the floor slots, carrying the floor, the floor
  tiles, the caller's list \<open>tiles\<close> (shortened by \<^verbatim>\<open>pop(0)\<close>) and the counter \<open>number\<close>.\<close>

fun AddToFloor_loop ::
  "nat list \<Rightarrow> int list \<Rightarrow> Tile list \<Rightarrow> Tile list \<Rightarrow> int
     \<Rightarrow> error + (int list \<times> Tile list \<times> Tile list)" where
  "AddToFloor_loop [] fl ft ts n = Inr (fl, ft, ts)"
| "AddToFloor_loop (i # is) fl ft ts n =
     (if fl ! i = 0 then
        (case ts of
           [] \<Rightarrow> Inl IndexError
         | tt # ts' \<Rightarrow>
             if n - 1 = 0 then Inr (fl[i := 1], ft @ [tt], ts')
             else AddToFloor_loop is (fl[i := 1]) (ft @ [tt]) ts' (n - 1))
      else if n = 0 then Inr (fl, ft, ts)
      else AddToFloor_loop is fl ft ts n)"

definition AddToFloor :: "AgentState \<Rightarrow> Tile list \<Rightarrow> error + (AgentState \<times> Tile list)" where
  "AddToFloor a ts =
     (case AddToFloor_loop [0..<length (floor a)] (floor a) (floor_tiles a) ts (int (length ts)) of
        Inl e \<Rightarrow> Inl e
      | Inr (fl, ft, ts') \<Rightarrow> Inr (a\<lparr>floor := fl, floor_tiles := ft\<rparr>, ts'))"

definition AddToPatternLine :: "AgentState \<Rightarrow> int \<Rightarrow> int \<Rightarrow> Tile \<Rightarrow> error + AgentState" where
  "AddToPatternLine a line n t =
     (if \<not> (line \<ge> 0 \<and> line < int GRID_SIZE) then Inl AssertionError
      else if \<not> (nat line < length (lines_tile a) \<and> nat line < length (lines_number a))
        then Inl IndexError
      else if \<not> (lines_tile a ! nat line = None \<or> lines_tile a ! nat line = Some t)
        then Inl AssertionError
      else let a' = a\<lparr>lines_number := (lines_number a)[nat line := lines_number a ! nat line + n],
                      lines_tile := (lines_tile a)[nat line := Some t]\<rparr>
           in if \<not> lines_number a' ! nat line \<le> line + 1 then Inl AssertionError
              else Inr a')"

fun first_free :: "nat list \<Rightarrow> int list \<Rightarrow> int list" where
  "first_free [] fl = fl"
| "first_free (i # is) fl = (if fl ! i = 0 then fl[i := 1] else first_free is fl)"

definition GiveFirstAgentToken :: "AgentState \<Rightarrow> AgentState" where
  "GiveFirstAgentToken a = a\<lparr>floor := first_free [0..<length (floor a)] (floor a)\<rparr>"

definition GetCompletedRows :: "AgentState \<Rightarrow> int" where
  "GetCompletedRows a =
     int (length (filter (\<lambda>i. \<forall>j \<in> set [0..<GRID_SIZE]. grid_state a ! i ! j \<noteq> 0) [0..<GRID_SIZE]))"

definition GetCompletedColumns :: "AgentState \<Rightarrow> int" where
  "GetCompletedColumns a =
     int (length (filter (\<lambda>i. \<forall>j \<in> set [0..<GRID_SIZE]. grid_state a ! j ! i \<noteq> 0) [0..<GRID_SIZE]))"

definition GetCompletedSets :: "AgentState \<Rightarrow> int" where
  "GetCompletedSets a = int (length (filter (\<lambda>t. number_of a t = int GRID_SIZE) all_tiles))"

text \<open>The four counting loops of \<^verbatim>\<open>ScoreRound\<close>: walk away from the placed tile, add each
  cell's value, stop after a cell holding 0.\<close>

fun run_count :: "int list \<Rightarrow> int" where
  "run_count [] = 0"
| "run_count (v # vs) = v + (if v = 0 then 0 else run_count vs)"

text \<open>The score of the tile just placed at row \<open>i\<close>, column \<open>col\<close> of grid \<open>g\<close>: the four
  counts and the three conditional additions to \<open>score_inc\<close>.\<close>

definition tile_score :: "int list list \<Rightarrow> nat \<Rightarrow> nat \<Rightarrow> int" where
  "tile_score g i col =
     (let above = run_count (map (\<lambda>j. g ! i ! j) (rev [0..<col]));
          below = run_count (map (\<lambda>j. g ! i ! j) [col + 1..<GRID_SIZE]);
          left = run_count (map (\<lambda>j. g ! j ! col) (rev [0..<i]));
          right = run_count (map (\<lambda>j. g ! j ! col) [i + 1..<GRID_SIZE])
      in (if above > 0 \<or> below > 0 then 1 + above + below else 0)
         + (if left > 0 \<or> right > 0 then 1 + left + right else 0)
         + (if above = 0 \<and> below = 0 \<and> left = 0 \<and> right = 0 then 1 else 0))"

text \<open>One pass of the loop over the pattern lines, for line \<open>i\<close>; the state of the loop is
  the agent, \<open>used_tiles\<close> and \<open>score_inc\<close>. A full line without a colour reaches
  \<^verbatim>\<open>self.number_of[-1]\<close>, a KeyError.\<close>

definition score_line ::
  "nat \<Rightarrow> AgentState \<times> Tile list \<times> int \<Rightarrow> error + (AgentState \<times> Tile list \<times> int)" where
  "score_line i st =
     (case st of (a, used_tiles, score_inc) \<Rightarrow>
        if lines_number a ! i = int i + 1 then
          (case lines_tile a ! i of
             None \<Rightarrow> Inl KeyError
           | Some tc \<Rightarrow>
               let col = grid_scheme i tc;
                   g = (grid_state a)[i := (grid_state a ! i)[col := 1]];
                   a' = a\<lparr>number_of := (number_of a)(tc := number_of a tc + 1),
                          lines_tile := (lines_tile a)[i := None],
                          lines_number := (lines_number a)[i := 0],
                          grid_state := g\<rparr>
               in Inr (a', used_tiles @ replicate i tc, score_inc + tile_score g i col))
        else Inr st)"

definition score_lines :: "AgentState \<Rightarrow> error + (AgentState \<times> Tile list \<times> int)" where
  "score_lines a = fold_e score_line [0, 1, 2, 3, 4] (a, [], 0)"

text \<open>\<^verbatim>\<open>penalties += self.floor[i]*self.FLOOR_SCORES[i]\<close> over all floor slots.\<close>

definition floor_penalties :: "int list \<Rightarrow> int" where
  "floor_penalties fl = sum_list (map (\<lambda>i. fl ! i * FLOOR_SCORES ! i) [0..<length fl])"

text \<open>\<^verbatim>\<open>ScoreRound\<close> returns the agent as mutated together with the pair it returns in the
  source, \<^verbatim>\<open>(self.score, used_tiles)\<close>.\<close>

definition ScoreRound :: "AgentState \<Rightarrow> error + (AgentState \<times> (int \<times> Tile list))" where
  "ScoreRound a =
     (case score_lines a of
        Inl e \<Rightarrow> Inl e
      | Inr (a1, used_tiles, score_inc) \<Rightarrow>
          if length FLOOR_SCORES < length (floor a1) then Inl IndexError
          else
            let penalties = floor_penalties (floor a1);
                used_tiles' = used_tiles @ floor_tiles a1;
                score_change = score_inc + penalties;
                score_change' = (if score_change < 0 \<and> score a1 < - score_change
                                 then - score a1 else score_change);
                a2 = a1\<lparr>floor := map (\<lambda>_. 0) (floor a1), floor_tiles := [],
                        score := score a1 + score_change'\<rparr>
            in (case round_scores (agent_trace a2) of
                  [] \<Rightarrow> Inl IndexError
                | r # rs \<Rightarrow>
                    Inr (a2\<lparr>agent_trace := (agent_trace a2)
                              \<lparr>round_scores := butlast (r # rs) @ [score_change']\<rparr>\<rparr>,
                         (score a2, used_tiles'))))"

definition EndOfGameScore :: "AgentState \<Rightarrow> AgentState \<times> int" where
  "EndOfGameScore a =
     (let bonus = GetCompletedRows a * ROW_BONUS + GetCompletedColumns a * COL_BONUS
                  + GetCompletedSets a * SET_BONUS
      in (a\<lparr>agent_trace := (agent_trace a)\<lparr>bonuses := bonus\<rparr>, score := score a + bonus\<rparr>, bonus))"

subsection \<open>AzulState\<close>

record AzulState =
  agents :: "AgentState list"
  bag :: "Tile list"
  bag_used :: "Tile list"
  factories :: "TileDisplay list"
  centre_pool :: TileDisplay
  first_agent_taken :: bool
  first_agent :: int
  next_first_agent :: int

definition NUM_FACTORIES :: "nat list" where "NUM_FACTORIES = [5]"
definition NUM_TILE_TYPE :: nat where "NUM_TILE_TYPE = 20"
definition NUM_ON_FACTORY :: nat where "NUM_ON_FACTORY = 4"

text \<open>
  \<^verbatim>\<open>random.shuffle\<close> and \<^verbatim>\<open>random.randrange\<close> are parameters: \<open>shuf\<close> is the permutation
  a call of \<^verbatim>\<open>shuffle\<close> applies, \<open>rnd\<close> the number \<^verbatim>\<open>randrange(n)\<close> reduces modulo \<open>n\<close>
  (\<^verbatim>\<open>randrange\<close> raises ValueError for \<open>n \<le> 0\<close>).

  \<^verbatim>\<open>InitialiseFactory\<close> resets the display it is given, so only the bags matter: it returns
  the display as filled and the state with the tiles drawn.
\<close>

definition InitialiseFactory ::
  "(Tile list \<Rightarrow> Tile list) \<Rightarrow> AzulState \<Rightarrow> TileDisplay \<times> AzulState" where
  "InitialiseFactory shuf s =
     (let refill = (length (bag s) < NUM_ON_FACTORY \<and> length (bag_used s) > 0);
          bag1 = (if refill then bag s @ shuf (bag_used s) else bag s);
          used1 = (if refill then [] else bag_used s);
          k = min NUM_ON_FACTORY (length bag1);
          fd = fold (\<lambda>tile d. d\<lparr>tiles := (tiles d)(tile := tiles d tile + 1),
                                 total := total d + 1\<rparr>)
                    (take k bag1) TileDisplay_init
      in (fd, s\<lparr>bag := drop k bag1, bag_used := used1\<rparr>))"

definition AzulState_init ::
  "(Tile list \<Rightarrow> Tile list) \<Rightarrow> nat \<Rightarrow> int \<Rightarrow> error + AzulState" where
  "AzulState_init shuf rnd num_agents =
     (let s0 = \<lparr>agents = map (\<lambda>i. AgentState_init (int i)) [0..<nat num_agents],
                bag = shuf (concat (replicate NUM_TILE_TYPE [BLUE, YELLOW, RED, BLACK, WHITE])),
                bag_used = [],
                factories = [],
                centre_pool = TileDisplay_init,
                first_agent_taken = False,
                first_agent = 0,
                next_first_agent = - 1\<rparr>;
          s1 = fold (\<lambda>_ s. case InitialiseFactory shuf s of
                               (fd, s') \<Rightarrow> s'\<lparr>factories := factories s' @ [fd]\<rparr>)
                    [0..<NUM_FACTORIES ! 0] s0
      in if num_agents \<le> 0 then Inl ValueError
         else Inr (s1\<lparr>first_agent := int (rnd mod nat num_agents)\<rparr>))"

definition TilesRemaining :: "AzulState \<Rightarrow> bool" where
  "TilesRemaining s = (total (centre_pool s) > 0 \<or> (\<exists>fac \<in> set (factories s). total fac > 0))"

text \<open>\<^verbatim>\<open>clone\<close> builds a fresh \<^verbatim>\<open>AzulState(len(self.agents))\<close> and then overwrites, field by
  field, exactly the attributes the source assigns.\<close>

definition clone_agent :: "AgentState \<Rightarrow> AgentState \<Rightarrow> AgentState" where
  "clone_agent new_agent agent =
     new_agent\<lparr>score := score agent,
               lines_number := lines_number agent,
               lines_tile := lines_tile agent,
               grid_state := grid_state agent,
               floor := floor agent,
               floor_tiles := floor_tiles agent,
               agent_trace := agent_trace agent\<rparr>"

definition clone :: "(Tile list \<Rightarrow> Tile list) \<Rightarrow> nat \<Rightarrow> AzulState \<Rightarrow> error + AzulState" where
  "clone shuf rnd s =
     (case AzulState_init shuf rnd (int (length (agents s))) of
        Inl e \<Rightarrow> Inl e
      | Inr new_state \<Rightarrow>
          if length (factories new_state) < length (factories s) then Inl IndexError
          else Inr (new_state
                 \<lparr>agents := map (\<lambda>(new_agent, agent). clone_agent new_agent agent)
                                (zip (agents new_state) (agents s)),
                  bag := bag s,
                  bag_used := bag_used s,
                  factories := map (\<lambda>factory. \<lparr>tiles = tiles factory, total = total factory\<rparr>)
                                   (factories s)
                               @ drop (length (factories s)) (factories new_state),
                  centre_pool := \<lparr>tiles = tiles (centre_pool s), total = total (centre_pool s)\<rparr>,
                  first_agent_taken := first_agent_taken s,
                  first_agent := first_agent s,
                  next_first_agent := next_first_agent s\<rparr>))"

subsection \<open>AzulGameRule.generateSuccessor\<close>

definition score_agent :: "nat \<Rightarrow> AzulState \<Rightarrow> error + AzulState" where
  "score_agent k s =
     (case ScoreRound (agents s ! k) of
        Inl e \<Rightarrow> Inl e
      | Inr (plr, (_, used)) \<Rightarrow>
          Inr (s\<lparr>agents := (agents s)[k := plr], bag_used := bag_used s @ used\<rparr>))"

definition refill_factory :: "(Tile list \<Rightarrow> Tile list) \<Rightarrow> nat \<Rightarrow> AzulState \<Rightarrow> AzulState" where
  "refill_factory shuf k s =
     (case InitialiseFactory shuf s of
        (fd, s') \<Rightarrow> s'\<lparr>factories := (factories s')[k := fd]\<rparr>)"

definition record_action :: "AgentTrace \<Rightarrow> action \<Rightarrow> AgentTrace" where
  "record_action tr act =
     (let tr1 = (if length (actions tr) = 0 then StartRound tr else tr)
      in tr1\<lparr>actions := butlast (actions tr1) @ [last (actions tr1) @ [act]]\<rparr>)"

text \<open>The block both take branches share: tiles for the floor line (what does not fit is
  left in \<open>ttf\<close> and goes to the used bag), then tiles for the pattern line.\<close>

definition place_grab :: "AgentState \<Rightarrow> TileGrab \<Rightarrow> error + (AgentState \<times> Tile list)" where
  "place_grab plr tg =
     (case (if num_to_floor_line tg > 0
            then AddToFloor plr (replicate (nat (num_to_floor_line tg)) (tile_type tg))
            else Inr (plr, [])) of
        Inl e \<Rightarrow> Inl e
      | Inr (plr1, ttf) \<Rightarrow>
          (case (if num_to_pattern_line tg > 0
                 then AddToPatternLine plr1 (pattern_line_dest tg) (num_to_pattern_line tg)
                        (tile_type tg)
                 else Inr plr1) of
             Inl e \<Rightarrow> Inl e
           | Inr plr2 \<Rightarrow> Inr (plr2, ttf)))"

text \<open>One pass of the loop that moves what is left on a factory to the centre.\<close>

definition overflow_tile ::
  "Tile \<Rightarrow> TileDisplay \<times> TileDisplay \<Rightarrow> error + (TileDisplay \<times> TileDisplay)" where
  "overflow_tile tile cf =
     (case cf of (centre, fac) \<Rightarrow>
        let num_on_fd = tiles fac tile
        in if num_on_fd > 0 then
             (case AddTiles centre num_on_fd tile of
                Inl e \<Rightarrow> Inl e
              | Inr centre' \<Rightarrow>
                  (case ReactionTiles fac num_on_fd tile of
                     Inl e \<Rightarrow> Inl e
                   | Inr fac' \<Rightarrow> Inr (centre', fac')))
           else Inr cf)"

definition generateSuccessor ::
  "(Tile list \<Rightarrow> Tile list) \<Rightarrow> AzulState \<Rightarrow> action \<Rightarrow> int \<Rightarrow> error + AzulState" where
  "generateSuccessor shuf state act agent_id =
     (case act of
        ENDROUND \<Rightarrow>
          (case fold_e score_agent [0..<length (agents state)] state of
             Inl e \<Rightarrow> Inl e
           | Inr s1 \<Rightarrow>
               Inr (s1\<lparr>first_agent_taken := False,
                       first_agent := next_first_agent s1,
                       next_first_agent := - 1\<rparr>))
      | STARTROUND \<Rightarrow>
          (let s1 = state\<lparr>agents := map (\<lambda>plr. plr\<lparr>agent_trace := StartRound (agent_trace plr)\<rparr>)
                                        (agents state)\<rparr>;
               s2 = fold (refill_factory shuf) [0..<length (factories s1)] s1
           in Inr (s2\<lparr>centre_pool := (centre_pool s2)\<lparr>tiles := (\<lambda>_. 0)\<rparr>\<rparr>))
      | Take kind fid tg \<Rightarrow>
          (case py_idx (length (agents state)) agent_id of
             None \<Rightarrow> Inl IndexError
           | Some k \<Rightarrow>
               let plr = agents state ! k;
                   plr1 = plr\<lparr>agent_trace := record_action (agent_trace plr) act\<rparr>
               in (case kind of
                     TAKE_FROM_CENTRE \<Rightarrow>
                       let plr2 = (if \<not> first_agent_taken state
                                   then GiveFirstAgentToken plr1 else plr1);
                           s1 = (if \<not> first_agent_taken state
                                 then state\<lparr>first_agent_taken := True,
                                            next_first_agent := agent_id\<rparr>
                                 else state)
                       in (case place_grab plr2 tg of
                             Inl e \<Rightarrow> Inl e
                           | Inr (plr3, ttf) \<Rightarrow>
                               (case ReactionTiles (centre_pool s1) (number tg) (tile_type tg) of
                                  Inl e \<Rightarrow> Inl e
                                | Inr centre \<Rightarrow>
                                    Inr (s1\<lparr>agents := (agents s1)[k := plr3],
                                            bag_used := bag_used s1 @ ttf,
                                            centre_pool := centre\<rparr>)))
                   | TAKE_FROM_FACTORY \<Rightarrow>
                       (case place_grab plr1 tg of
                          Inl e \<Rightarrow> Inl e
                        | Inr (plr3, ttf) \<Rightarrow>
                            (case py_idx (length (factories state)) fid of
                               None \<Rightarrow> Inl IndexError
                             | Some f \<Rightarrow>
                                 (case ReactionTiles (factories state ! f) (number tg)
                                         (tile_type tg) of
                                    Inl e \<Rightarrow> Inl e
                                  | Inr fac \<Rightarrow>
                                      (case fold_e overflow_tile all_tiles
                                              (centre_pool state, fac) of
                                         Inl e \<Rightarrow> Inl e
                                       | Inr (centre, fac') \<Rightarrow>
                                           Inr (state\<lparr>agents := (agents state)[k := plr3],
                                                      bag_used := bag_used state @ ttf,
                                                      factories := (factories state)[f := fac'],
                                                      centre_pool := centre\<rparr>))))))))"

subsection \<open>AzulGameRule.getLegalActions\<close>

text \<open>The body of the loop over the pattern lines, for line \<open>i\<close>; the source has the same
  block once for the factories and once for the centre.\<close>

definition line_action :: "AgentState \<Rightarrow> Action \<Rightarrow> int \<Rightarrow> Tile \<Rightarrow> int \<Rightarrow> nat \<Rightarrow> action list" where
  "line_action agent_state kind fid tile num_avail i =
     (if lines_tile agent_state ! i \<noteq> None \<and> lines_tile agent_state ! i \<noteq> Some tile then []
      else if grid_state agent_state ! i ! grid_scheme i tile = 1 then []
      else let slots_free = (int i + 1) - lines_number agent_state ! i
           in [Take kind fid
                 ((TileGrab_init tile)
                    \<lparr>number := num_avail,
                     pattern_line_dest := int i,
                     num_to_pattern_line := min num_avail slots_free,
                     num_to_floor_line := num_avail - min num_avail slots_free\<rparr>)])"

definition tile_actions :: "AgentState \<Rightarrow> Action \<Rightarrow> int \<Rightarrow> Tile \<Rightarrow> int \<Rightarrow> action list" where
  "tile_actions agent_state kind fid tile num_avail =
     (if num_avail = 0 then []
      else concat (map (line_action agent_state kind fid tile num_avail) [0, 1, 2, 3, 4])
           @ [Take kind fid
                ((TileGrab_init tile)\<lparr>number := num_avail, num_to_floor_line := num_avail\<rparr>)])"

definition getLegalActions :: "int \<Rightarrow> AzulState \<Rightarrow> int \<Rightarrow> error + action list" where
  "getLegalActions num_of_agent game_state agent_id =
     (if \<not> TilesRemaining game_state \<and> \<not> next_first_agent game_state = - 1 then Inr [ENDROUND]
      else if agent_id = num_of_agent then Inr [STARTROUND]
      else (case py_idx (length (agents game_state)) agent_id of
              None \<Rightarrow> Inl IndexError
            | Some k \<Rightarrow>
                let agent_state = agents game_state ! k
                in Inr (concat (map (\<lambda>fid. concat (map (\<lambda>tile.
                                    tile_actions agent_state TAKE_FROM_FACTORY (int fid) tile
                                      (tiles (factories game_state ! fid) tile)) all_tiles))
                                 [0..<length (factories game_state)])
                        @ concat (map (\<lambda>tile.
                                    tile_actions agent_state TAKE_FROM_CENTRE (- 1) tile
                                      (tiles (centre_pool game_state) tile)) all_tiles))))"

section \<open>Notions used to state the properties\<close>

text \<open>The change of an agent's score over one call of \<^verbatim>\<open>ScoreRound\<close>, and the points the
  pattern-line loop of that call adds up (\<open>score_inc\<close>).\<close>

definition round_delta :: "AgentState \<Rightarrow> int" where
  "round_delta a = (case ScoreRound a of Inl e \<Rightarrow> 0 | Inr (a', r) \<Rightarrow> score a' - score a)"

definition placement_points :: "AgentState \<Rightarrow> int" where
  "placement_points a =
     (case score_lines a of Inl e \<Rightarrow> 0 | Inr (a1, used_tiles, score_inc) \<Rightarrow> score_inc)"

text \<open>A grid cell holds a tile when it is 1; cells outside the 5 x 5 grid hold none.\<close>

definition occupied :: "int list list \<Rightarrow> int \<Rightarrow> int \<Rightarrow> bool" where
  "occupied g r c = (0 \<le> r \<and> r < 5 \<and> 0 \<le> c \<and> c < 5 \<and> g ! nat r ! nat c = 1)"

text \<open>Along one direction through a cell: exactly one of the two adjacent cells holds a tile,
  and the cell behind that neighbour is free, so the run through the cell has length 2.\<close>

definition one_neighbour :: "bool \<Rightarrow> bool \<Rightarrow> bool \<Rightarrow> bool \<Rightarrow> bool" where
  "one_neighbour far_before before after far_after =
     ((before \<and> \<not> far_before \<and> \<not> after) \<or> (after \<and> \<not> far_after \<and> \<not> before))"

text \<open>The board fixture of the scoring property: a 5 x 5 grid of 0/1 cells, the pattern line of
  length 3 (index 2) full with colour \<open>tc\<close>, no other line full, an empty floor line, a round
  started, and one neighbour in the row and one in the column of the cell the tile goes to.\<close>

definition scoring_fixture :: "AgentState \<Rightarrow> Tile \<Rightarrow> bool" where
  "scoring_fixture a tc =
     (let g = grid_state a; c = int (grid_scheme 2 tc) in
      length g = 5 \<and> (\<forall>row \<in> set g. length row = 5 \<and> (\<forall>v \<in> set row. v = 0 \<or> v = 1)) \<and>
      length (lines_number a) = 5 \<and> length (lines_tile a) = 5 \<and>
      lines_number a ! 2 = 3 \<and> lines_tile a ! 2 = Some tc \<and>
      (\<forall>i \<in> {0, 1, 3, 4}. lines_number a ! i \<noteq> int i + 1) \<and>
      floor a = [0, 0, 0, 0, 0, 0, 0] \<and>
      round_scores (agent_trace a) \<noteq> [] \<and>
      one_neighbour (occupied g 2 (c - 2)) (occupied g 2 (c - 1))
                    (occupied g 2 (c + 1)) (occupied g 2 (c + 2)) \<and>
      one_neighbour (occupied g 0 c) (occupied g 1 c) (occupied g 3 c) (occupied g 4 c))"

subsection \<open>Concrete boards and states\<close>

text \<open>A blue tile due at row 2, column 2, with tiles at (2,1) and (1,2).\<close>

definition board_two_neighbours :: AgentState where
  "board_two_neighbours = (AgentState_init 0)
     \<lparr>lines_number := [0, 0, 3, 0, 0],
      lines_tile := [None, None, Some BLUE, None, None],
      agent_trace := StartRound AgentTrace_init,
      grid_state := [[0, 0, 0, 0, 0], [0, 0, 1, 0, 0], [0, 1, 0, 0, 0],
                     [0, 0, 0, 0, 0], [0, 0, 0, 0, 0]]\<rparr>"

text \<open>A board with 5 points, nothing to place and an empty floor line.\<close>

definition board_idle :: AgentState where
  "board_idle = (AgentState_init 0)\<lparr>score := 5, agent_trace := StartRound AgentTrace_init\<rparr>"

text \<open>A board with 1 point and three tiles on the floor line (penalty 4).\<close>

definition board_floor :: AgentState where
  "board_floor = (AgentState_init 0)
     \<lparr>score := 1, floor := [1, 1, 1, 0, 0, 0, 0], floor_tiles := [RED, RED, RED],
      agent_trace := StartRound AgentTrace_init\<rparr>"

text \<open>The state \<^verbatim>\<open>AzulState(2)\<close> builds when \<^verbatim>\<open>shuffle\<close> leaves the bag as filled.\<close>

definition state_fresh :: AzulState where
  "state_fresh = projr (AzulState_init id 0 2)"

text \<open>A board with the five blue tiles on the wall, in a state between two rounds.\<close>

definition board_blue_set :: AgentState where
  "board_blue_set = (AgentState_init 0)
     \<lparr>score := 12,
      agent_trace := StartRound AgentTrace_init,
      grid_state := [[1, 0, 0, 0, 0], [0, 1, 0, 0, 0], [0, 0, 1, 0, 0],
                     [0, 0, 0, 1, 0], [0, 0, 0, 0, 1]],
      number_of := (\<lambda>_. 0)(BLUE := 5)\<rparr>"

definition state_blue_set :: AzulState where
  "state_blue_set =
     \<lparr>agents = [board_blue_set, (AgentState_init 1)\<lparr>agent_trace := StartRound AgentTrace_init\<rparr>],
      bag = [], bag_used = [],
      factories = replicate 5 TileDisplay_init,
      centre_pool = TileDisplay_init,
      first_agent_taken = False, first_agent = 0, next_first_agent = - 1\<rparr>"

text \<open>Two agents, every display empty, and nobody took from the centre in the round.\<close>

definition state_unclaimed :: AzulState where
  "state_unclaimed =
     \<lparr>agents = [(AgentState_init 0)\<lparr>agent_trace := StartRound AgentTrace_init\<rparr>,
                (AgentState_init 1)\<lparr>agent_trace := StartRound AgentTrace_init\<rparr>],
      bag = [], bag_used = [],
      factories = replicate 5 TileDisplay_init,
      centre_pool = TileDisplay_init,
      first_agent_taken = False, first_agent = 0, next_first_agent = - 1\<rparr>"

text \<open>A take of one blue tile from factory 0 that sends it nowhere.\<close>

definition grab_one_lost :: action where
  "grab_one_lost = Take TAKE_FROM_FACTORY 0 ((TileGrab_init BLUE)\<lparr>number := 1\<rparr>)"

text \<open>The display a take removes its tiles from.\<close>

definition source_display :: "AzulState \<Rightarrow> Action \<Rightarrow> int \<Rightarrow> TileDisplay option" where
  "source_display s kind fid =
     (case kind of
        TAKE_FROM_CENTRE \<Rightarrow> Some (centre_pool s)
      | TAKE_FROM_FACTORY \<Rightarrow> map_option (\<lambda>f. factories s ! f) (py_idx (length (factories s)) fid))"

text \<open>The invariant of a tile display: no negative count, and \<open>total\<close> is the sum of the counts.\<close>

definition display_ok :: "TileDisplay \<Rightarrow> bool" where
  "display_ok d =
     ((\<forall>t \<in> set all_tiles. 0 \<le> tiles d t) \<and> total d = sum_list (map (tiles d) all_tiles))"

text \<open>A take of five blue tiles, all to the floor line.\<close>

definition grab_five :: TileGrab where
  "grab_five = (TileGrab_init BLUE)\<lparr>number := 5, num_to_floor_line := 5\<rparr>"

subsection \<open>The legal moves of a drafting turn, in the words of the specification\<close>

text \<open>A pattern line can take a colour when it has no colour or that colour, and the wall
  cell of that colour in its row is free.\<close>

definition eligible_line :: "AgentState \<Rightarrow> Tile \<Rightarrow> nat \<Rightarrow> bool" where
  "eligible_line a t i =
     ((lines_tile a ! i = None \<or> lines_tile a ! i = Some t) \<and>
      \<not> occupied (grid_state a) (int i) (int (grid_scheme i t)))"

text \<open>Taking all \<open>c\<close> tiles of colour \<open>t\<close> to pattern line \<open>i\<close>: as many as there are
  free slots go to the line, the rest to the floor.\<close>

definition line_take :: "Action \<Rightarrow> int \<Rightarrow> AgentState \<Rightarrow> Tile \<Rightarrow> int \<Rightarrow> nat \<Rightarrow> action" where
  "line_take kind fid a t c i =
     Take kind fid
       \<lparr>tile_type = t, number = c, pattern_line_dest = int i,
        num_to_pattern_line = min c (int i + 1 - lines_number a ! i),
        num_to_floor_line = c - min c (int i + 1 - lines_number a ! i)\<rparr>"

text \<open>Taking all \<open>c\<close> tiles of colour \<open>t\<close> to the floor line.\<close>

definition floor_take :: "Action \<Rightarrow> int \<Rightarrow> Tile \<Rightarrow> int \<Rightarrow> action" where
  "floor_take kind fid t c =
     Take kind fid
       \<lparr>tile_type = t, number = c, pattern_line_dest = - 1,
        num_to_pattern_line = 0, num_to_floor_line = c\<rparr>"

definition display_takes :: "Action \<Rightarrow> int \<Rightarrow> TileDisplay \<Rightarrow> AgentState \<Rightarrow> action set" where
  "display_takes kind fid d a =
     {x. \<exists>t. 1 \<le> tiles d t \<and>
          (x = floor_take kind fid t (tiles d t) \<or>
           (\<exists>i<5. eligible_line a t i \<and> x = line_take kind fid a t (tiles d t) i))}"

definition drafting_actions :: "AzulState \<Rightarrow> AgentState \<Rightarrow> action set" where
  "drafting_actions s a =
     (\<Union>k<length (factories s). display_takes TAKE_FROM_FACTORY (int k) (factories s ! k) a)
     \<union> display_takes TAKE_FROM_CENTRE (- 1) (centre_pool s) a"

text \<open>A drafting position: factory 0 holds two blue and two red tiles, the centre one yellow
  tile; agent 0 has a blue tile on the wall in row 0 and one red tile on pattern line 1.\<close>

definition board_draft :: AgentState where
  "board_draft = (AgentState_init 0)
     \<lparr>score := 1,
      lines_number := [0, 1, 0, 0, 0],
      lines_tile := [None, Some RED, None, None, None],
      agent_trace := StartRound AgentTrace_init,
      grid_state := [[1, 0, 0, 0, 0], [0, 0, 0, 0, 0], [0, 0, 0, 0, 0],
                     [0, 0, 0, 0, 0], [0, 0, 0, 0, 0]],
      number_of := (\<lambda>_. 0)(BLUE := 1)\<rparr>"

definition state_draft :: AzulState where
  "state_draft =
     \<lparr>agents = [board_draft, (AgentState_init 1)\<lparr>agent_trace := StartRound AgentTrace_init\<rparr>],
      bag = [], bag_used = [],
      factories = [\<lparr>tiles = (\<lambda>_. 0)(BLUE := 2, RED := 2), total = 4\<rparr>,
                   TileDisplay_init, TileDisplay_init, TileDisplay_init, TileDisplay_init],
      centre_pool = \<lparr>tiles = (\<lambda>_. 0)(YELLOW := 1), total = 1\<rparr>,
      first_agent_taken = False, first_agent = 0, next_first_agent = - 1\<rparr>"

subsection \<open>Counting tiles\<close>

text \<open>The tiles on a display, on a board (wall cells holding a tile, tiles on the floor line,
  tiles on the pattern lines), and in the whole state.\<close>

definition display_count :: "TileDisplay \<Rightarrow> int" where
  "display_count d = sum_list (map (tiles d) all_tiles)"

definition board_count :: "AgentState \<Rightarrow> int" where
  "board_count a =
     sum_list (map sum_list (grid_state a)) + int (length (floor_tiles a))
     + sum_list (lines_number a)"

definition tile_count :: "AzulState \<Rightarrow> int" where
  "tile_count s =
     int (length (bag s)) + int (length (bag_used s))
     + sum_list (map display_count (factories s)) + display_count (centre_pool s)
     + sum_list (map board_count (agents s))"

text \<open>A shuffle returns a permutation of its argument.\<close>

definition shuffles :: "(Tile list \<Rightarrow> Tile list) \<Rightarrow> bool" where
  "shuffles shuf = (\<forall>xs. mset (shuf xs) = mset xs)"

text \<open>No tile on any display.\<close>

definition displays_empty :: "AzulState \<Rightarrow> bool" where
  "displays_empty s =
     (\<forall>d \<in> set (centre_pool s # factories s). \<forall>t \<in> set all_tiles. tiles d t = 0)"

text \<open>
  The states of a game: the fresh state, and every state \<^verbatim>\<open>generateSuccessor\<close> returns for
  an action that \<^verbatim>\<open>getLegalActions\<close> offers some agent id in a state of the game, where
  \<^verbatim>\<open>"STARTROUND"\<close> is applied only when the displays are empty (that is, after a round was
  played to its end).
\<close>

inductive lineage :: "int \<Rightarrow> AzulState \<Rightarrow> bool" for n :: int where
  fresh: "shuffles shuf \<Longrightarrow> AzulState_init shuf rnd n = Inr s \<Longrightarrow> lineage n s"
| succ: "lineage n s \<Longrightarrow> getLegalActions n s agent_id = Inr acts \<Longrightarrow> act \<in> set acts \<Longrightarrow>
         (act = STARTROUND \<longrightarrow> displays_empty s) \<Longrightarrow> shuffles shuf \<Longrightarrow>
         generateSuccessor shuf s act agent_id = Inr s' \<Longrightarrow> lineage n s'"

text \<open>What the board of an agent satisfies throughout a game.\<close>

definition board_inv :: "AgentState \<Rightarrow> bool" where
  "board_inv a =
     (length (grid_state a) = 5 \<and>
      (\<forall>row \<in> set (grid_state a). length row = 5 \<and> (\<forall>v \<in> set row. v = 0 \<or> v = 1)) \<and>
      length (lines_number a) = 5 \<and> length (lines_tile a) = 5 \<and>
      (\<forall>i<5. lines_number a ! i \<le> int i + 1 \<and>
             (0 < lines_number a ! i \<longrightarrow>
                (\<exists>tc. lines_tile a ! i = Some tc \<and> grid_state a ! i ! grid_scheme i tc = 0))))"

text \<open>A grab as \<^verbatim>\<open>getLegalActions\<close> builds it for a board: everything to the floor line, or to
  an eligible pattern line as far as it has room and the rest to the floor line.\<close>

definition offered_grab :: "AgentState \<Rightarrow> TileGrab \<Rightarrow> bool" where
  "offered_grab a tg =
     ((pattern_line_dest tg = - 1 \<and> num_to_pattern_line tg = 0 \<and>
       num_to_floor_line tg = number tg) \<or>
      (\<exists>i<5. eligible_line a (tile_type tg) i \<and> pattern_line_dest tg = int i \<and>
              num_to_pattern_line tg = min (number tg) (int i + 1 - lines_number a ! i) \<and>
              num_to_floor_line tg = number tg - num_to_pattern_line tg))"

text \<open>In the fresh state, agent 0 takes the blue tile of factory 0 to pattern line 0.\<close>

definition first_take :: action where
  "first_take = Take TAKE_FROM_FACTORY 0
     \<lparr>tile_type = BLUE, number = 1, pattern_line_dest = 0,
      num_to_pattern_line = 1, num_to_floor_line = 0\<rparr>"

definition state_after_take :: AzulState where
  "state_after_take = projr (generateSuccessor id state_fresh first_take 0)"

subsection \<open>The incremental position hash (update\_zobrist\_hash)\<close>

text \<open>
  The Zobrist tables are numpy arrays of unsigned 64-bit numbers, created with random
  contents and the shapes given in \<^verbatim>\<open>_initialize_zobrist_tables\<close>; they are a parameter
  here. An array is its shape and its elements in row-major order. What \<^verbatim>\<open>new_hash\<close> holds
  is a Python integer below \<open>2 ^ 64\<close> or an array.
\<close>

record ndarray =
  nd_shape :: "nat list"
  nd_data :: "64 word list"

datatype pyval = PyInt "64 word" | NdArray ndarray

text \<open>
  \<^verbatim>\<open>a[indices]\<close> where \<^verbatim>\<open>indices\<close> is a Python list of integers: numpy takes the list as an
  index array for the first axis, so the result stacks the sub-arrays \<^verbatim>\<open>a[i]\<close> for the
  \<open>i\<close> of the list (an index outside the first axis raises IndexError).
\<close>

definition fancy_index :: "ndarray \<Rightarrow> int list \<Rightarrow> error + ndarray" where
  "fancy_index a indices =
     (case nd_shape a of
        [] \<Rightarrow> Inl IndexError
      | n # rest \<Rightarrow>
          if \<exists>i \<in> set indices. py_idx n i = None then Inl IndexError
          else Inr \<lparr>nd_shape = length indices # rest,
                    nd_data = concat (map (\<lambda>i. take (prod_list rest)
                                               (drop (the (py_idx n i) * prod_list rest)
                                                  (nd_data a))) indices)\<rparr>)"

text \<open>numpy broadcasting of two shapes, given last axis first.\<close>

fun broadcast_rev :: "nat list \<Rightarrow> nat list \<Rightarrow> nat list option" where
  "broadcast_rev [] ys = Some ys"
| "broadcast_rev xs [] = Some xs"
| "broadcast_rev (x # xs) (y # ys) =
     (if x = y \<or> y = 1 then map_option ((#) x) (broadcast_rev xs ys)
      else if x = 1 then map_option ((#) y) (broadcast_rev xs ys)
      else None)"

text \<open>All index tuples of a shape in row-major order, and the position in the data of the
  element a broadcast array of shape \<open>sh\<close> contributes at an index tuple of the result.\<close>

fun indices_of :: "nat list \<Rightarrow> nat list list" where
  "indices_of [] = [[]]"
| "indices_of (n # sh) = concat (map (\<lambda>i. map ((#) i) (indices_of sh)) [0..<n])"

definition broadcast_offset :: "nat list \<Rightarrow> nat list \<Rightarrow> nat" where
  "broadcast_offset sh mi =
     fold (\<lambda>(d, i) acc. acc * d + (if d = 1 then 0 else i))
          (zip sh (drop (length mi - length sh) mi)) 0"

text \<open>\<^verbatim>\<open>new_hash ^= arr\<close>: with an integer on the left the result is a new array of the shape
  of \<open>arr\<close>; with an array on the left the operation is in place, and \<open>arr\<close> must broadcast
  to the shape of the left array (ValueError otherwise).\<close>

definition ixor :: "pyval \<Rightarrow> ndarray \<Rightarrow> error + pyval" where
  "ixor new_hash arr =
     (case new_hash of
        PyInt h \<Rightarrow> Inr (NdArray (arr\<lparr>nd_data := map (\<lambda>w. xor h w) (nd_data arr)\<rparr>))
      | NdArray l \<Rightarrow>
          if broadcast_rev (rev (nd_shape l)) (rev (nd_shape arr)) = Some (rev (nd_shape l))
          then Inr (NdArray (l\<lparr>nd_data :=
                 map (\<lambda>mi. xor (nd_data l ! broadcast_offset (nd_shape l) mi)
                                (nd_data arr ! broadcast_offset (nd_shape arr) mi))
                     (indices_of (nd_shape l))\<rparr>))
          else Inl ValueError)"

text \<open>\<^verbatim>\<open>update_zobrist_hash(old_hash, changes)\<close>: a change is the tuple of a table name and
  indices; \<^verbatim>\<open>for table_name, *indices in changes\<close> binds \<open>indices\<close> to the list of them.
  \<open>hash_change\<close> is one pass of the loop.\<close>

definition hash_change ::
  "(string \<rightharpoonup> ndarray) \<Rightarrow> string \<times> int list \<Rightarrow> pyval \<Rightarrow> error + pyval" where
  "hash_change ZOBRIST_TABLES change new_hash =
     (case change of (table_name, indices) \<Rightarrow>
        (case ZOBRIST_TABLES table_name of
           None \<Rightarrow> Inl KeyError
         | Some table \<Rightarrow>
             (case fancy_index table indices of
                Inl e \<Rightarrow> Inl e
              | Inr arr \<Rightarrow> ixor new_hash arr)))"

definition update_zobrist_hash ::
  "(string \<rightharpoonup> ndarray) \<Rightarrow> 64 word \<Rightarrow> (string \<times> int list) list \<Rightarrow> error + pyval" where
  "update_zobrist_hash ZOBRIST_TABLES old_hash changes =
     fold_e (hash_change ZOBRIST_TABLES) changes (PyInt old_hash)"

text \<open>Tables of the shapes \<^verbatim>\<open>_initialize_zobrist_tables\<close> creates.\<close>

definition table_shaped :: "(string \<rightharpoonup> ndarray) \<Rightarrow> string \<Rightarrow> nat list \<Rightarrow> bool" where
  "table_shaped Z name sh =
     (case Z name of None \<Rightarrow> False
      | Some a \<Rightarrow> nd_shape a = sh \<and> length (nd_data a) = prod_list sh)"

definition zobrist_shaped :: "(string \<rightharpoonup> ndarray) \<Rightarrow> bool" where
  "zobrist_shaped Z =
     (table_shaped Z ''grid'' [4, 5, 5, 5] \<and> table_shaped Z ''floor'' [4, 7, 5] \<and>
      table_shaped Z ''pattern'' [4, 5, 5] \<and> table_shaped Z ''factory'' [9, 5] \<and>
      table_shaped Z ''center'' [5] \<and> table_shaped Z ''first_player'' [4] \<and>
      table_shaped Z ''bag'' [5])"

text \<open>Example tables: entry number \<open>k\<close> of every table is \<open>k\<close>.\<close>

definition example_table :: "nat list \<Rightarrow> ndarray" where
  "example_table sh = \<lparr>nd_shape = sh, nd_data = map of_nat [0..<prod_list sh]\<rparr>"

definition zobrist_example :: "string \<rightharpoonup> ndarray" where
  "zobrist_example =
     [''grid'' \<mapsto> example_table [4, 5, 5, 5], ''floor'' \<mapsto> example_table [4, 7, 5],
      ''pattern'' \<mapsto> example_table [4, 5, 5], ''factory'' \<mapsto> example_table [9, 5],
      ''center'' \<mapsto> example_table [5], ''first_player'' \<mapsto> example_table [4],
      ''bag'' \<mapsto> example_table [5]]"

section \<open>Round scoring\<close>

lemma score_line_keeps:
  "score_line i (a, u, n) = Inr (a', u', n') \<Longrightarrow>
     score a' = score a \<and> floor a' = floor a \<and> floor_tiles a' = floor_tiles a \<and>
     agent_trace a' = agent_trace a"
  by (auto simp: score_line_def Let_def split: if_splits option.splits)

lemma fold_score_line_keeps:
  "fold_e score_line is (a, u, n) = Inr (a', u', n') \<Longrightarrow>
     score a' = score a \<and> floor a' = floor a \<and> floor_tiles a' = floor_tiles a \<and>
     agent_trace a' = agent_trace a"
proof (induction "is" arbitrary: a u n)
  case Nil
  then show ?case by simp
next
  case (Cons i "is")
  then obtain a1 u1 n1 where s: "score_line i (a, u, n) = Inr (a1, u1, n1)"
    and r: "fold_e score_line is (a1, u1, n1) = Inr (a', u', n')"
    by (auto split: sum.splits)
  from Cons.IH[OF r] score_line_keeps[OF s] show ?case by simp
qed

text \<open>
  C6 (the code departs from its own comment). The comment above \<^verbatim>\<open>ScoreRound\<close> says it
  returns "the change in the agent's score"; the code ends with
  \<^verbatim>\<open>return (self.score, used_tiles)\<close>, the running total. On a board with 5 points and
  nothing to score the first component returned is 5 while the score changed by 0.
\<close>

theorem ScoreRound_returns_running_total:
  "\<not> isl (ScoreRound board_idle) \<and>
   fst (snd (projr (ScoreRound board_idle))) = 5 \<and>
   round_delta board_idle = 0"
  by code_simp

text \<open>
  C7. If the score is not negative before \<^verbatim>\<open>ScoreRound\<close>, it is not negative after it; and
  when the floor penalty is larger than the score plus the points of the tiles placed in this
  round, the score after it is exactly 0.
\<close>

theorem ScoreRound_score_floor:
  assumes "ScoreRound a = Inr (a', r)" and "0 \<le> score a"
  shows "0 \<le> score a' \<and>
         (score a + placement_points a < - floor_penalties (floor a) \<longrightarrow> score a' = 0)"
proof -
  from assms(1) obtain a1 u inc where sl: "score_lines a = Inr (a1, u, inc)"
    by (auto simp: ScoreRound_def split: sum.splits)
  then have k: "score a1 = score a" "floor a1 = floor a"
    using fold_score_line_keeps[of "[0, 1, 2, 3, 4]" a "[]" 0 a1 u inc]
    by (simp_all add: score_lines_def)
  have pp: "placement_points a = inc" using sl by (simp add: placement_points_def)
  from assms(1) sl have
    "score a' = score a1 +
       (if inc + floor_penalties (floor a1) < 0 \<and> score a1 < - (inc + floor_penalties (floor a1))
        then - score a1 else inc + floor_penalties (floor a1))"
    by (auto simp: ScoreRound_def Let_def split: if_splits list.splits)
  with k pp assms(2) show ?thesis by auto
qed

theorem ScoreRound_score_floor_witness:
  "ScoreRound board_floor = Inr (projr (ScoreRound board_floor)) \<and> 0 \<le> score board_floor \<and>
   score board_floor + placement_points board_floor < - floor_penalties (floor board_floor) \<and>
   score (fst (projr (ScoreRound board_floor))) = 0"
proof -
  have r: "\<not> isl (ScoreRound board_floor)" by code_simp
  then have e: "ScoreRound board_floor =
      Inr (fst (projr (ScoreRound board_floor)), snd (projr (ScoreRound board_floor)))"
    by simp
  have s: "0 \<le> score board_floor" by code_simp
  have p: "score board_floor + placement_points board_floor
             < - floor_penalties (floor board_floor)" by code_simp
  from ScoreRound_score_floor[OF e s] p r s show ?thesis by simp
qed

subsection \<open>The scoring fixture\<close>

lemma cells5:
  assumes "length g = 5" "\<forall>row \<in> set g. length row = 5 \<and> (\<forall>v \<in> set row. v = 0 \<or> v = (1::int))"
  shows "i < 5 \<Longrightarrow> j < 5 \<Longrightarrow> g ! i ! j = 0 \<or> g ! i ! j = 1" and "i < 5 \<Longrightarrow> length (g ! i) = 5"
  using assms by (metis nth_mem)+

lemma run_pair:
  assumes "one_neighbour (pp = 1) (p = 1) (q = 1) (qq = 1)"
    and "p = 0 \<or> p = 1" "q = 0 \<or> q = 1" "pp = 0 \<or> pp = 1" "qq = 0 \<or> qq = 1"
  shows "(run_count (p # pp # xs) = 1 \<and> run_count (q # qq # ys) = 0) \<or>
         (run_count (p # pp # xs) = 0 \<and> run_count (q # qq # ys) = 1)"
  using assms by (auto simp: one_neighbour_def)

lemma run_pair_edge1:
  assumes "one_neighbour False (p = 1) (q = 1) (qq = 1)"
    and "p = 0 \<or> p = 1" "q = 0 \<or> q = 1" "qq = 0 \<or> qq = 1"
  shows "(run_count [p] = 1 \<and> run_count (q # qq # ys) = 0) \<or>
         (run_count [p] = 0 \<and> run_count (q # qq # ys) = 1)"
  using assms by (auto simp: one_neighbour_def)

lemma run_pair_edge0:
  assumes "one_neighbour False False (q = 1) (qq = 1)"
    and "q = 0 \<or> q = 1" "qq = 0 \<or> qq = 1"
  shows "run_count [] = 0 \<and> run_count (q # qq # ys) = 1"
  using assms by (auto simp: one_neighbour_def)

lemma run_pair_edge3:
  assumes "one_neighbour (pp = 1) (p = 1) (q = 1) False"
    and "p = 0 \<or> p = 1" "q = 0 \<or> q = 1" "pp = 0 \<or> pp = 1"
  shows "(run_count (p # pp # xs) = 1 \<and> run_count [q] = 0) \<or>
         (run_count (p # pp # xs) = 0 \<and> run_count [q] = 1)"
  using assms by (auto simp: one_neighbour_def)

lemma run_pair_edge4:
  assumes "one_neighbour (pp = 1) (p = 1) False False"
    and "p = 0 \<or> p = 1" "pp = 0 \<or> pp = 1"
  shows "run_count (p # pp # xs) = 1 \<and> run_count [] = 0"
  using assms by (auto simp: one_neighbour_def)



lemma upt_small:
  "[0..<1] = [0]" "[0..<2] = [0, 1]" "[0..<3] = [0, 1, 2]" "[0..<4] = [0, 1, 2, 3]"
  "[0..<5] = [0, 1, 2, 3, 4]" "[Suc 0..<5] = [1, 2, 3, 4]"
  by code_simp+

lemma tile_score_fixture:
  assumes len: "length g = 5"
    and rows: "\<forall>row \<in> set g. length row = 5 \<and> (\<forall>v \<in> set row. v = 0 \<or> v = 1)"
    and h: "one_neighbour (occupied g 2 (int (grid_scheme 2 tc) - 2)) (occupied g 2 (int (grid_scheme 2 tc) - 1))
               (occupied g 2 (int (grid_scheme 2 tc) + 1)) (occupied g 2 (int (grid_scheme 2 tc) + 2))"
    and v: "one_neighbour (occupied g 0 (int (grid_scheme 2 tc))) (occupied g 1 (int (grid_scheme 2 tc)))
               (occupied g 3 (int (grid_scheme 2 tc))) (occupied g 4 (int (grid_scheme 2 tc)))"
  shows "tile_score (g[2 := (g ! 2)[grid_scheme 2 tc := 1]]) 2 (grid_scheme 2 tc) = 4"
proof -
  note c = cells5[OF len rows]
  have l: "length (g ! 2) = 5" using c(2) by simp
  have b: "\<And>i j. i < 5 \<Longrightarrow> j < 5 \<Longrightarrow> g ! i ! j = 0 \<or> g ! i ! j = 1" using c(1) by simp
  show ?thesis
  proof (cases tc)
    case BLUE
    have H: "(run_count [g ! 2 ! 1, g ! 2 ! 0] = 1 \<and> run_count [g ! 2 ! 3, g ! 2 ! 4] = 0) \<or> (run_count [g ! 2 ! 1, g ! 2 ! 0] = 0 \<and> run_count [g ! 2 ! 3, g ! 2 ! 4] = 1)"
      using h b[of 2 0] b[of 2 1] b[of 2 3] b[of 2 4]
      by (intro run_pair) (simp_all add: BLUE grid_scheme_def occupied_def)
    have V: "(run_count [g ! 1 ! 2, g ! 0 ! 2] = 1 \<and> run_count [g ! 3 ! 2, g ! 4 ! 2] = 0) \<or> (run_count [g ! 1 ! 2, g ! 0 ! 2] = 0 \<and> run_count [g ! 3 ! 2, g ! 4 ! 2] = 1)"
      using v b[of 0 2] b[of 1 2] b[of 3 2] b[of 4 2]
      by (intro run_pair) (simp_all add: BLUE grid_scheme_def occupied_def)
    have "tile_score (g[2 := (g ! 2)[2 := 1]]) 2 2 =
          (let above = run_count [g ! 2 ! 1, g ! 2 ! 0]; below = run_count [g ! 2 ! 3, g ! 2 ! 4];
               left = run_count [g ! 1 ! 2, g ! 0 ! 2]; right = run_count [g ! 3 ! 2, g ! 4 ! 2]
           in (if above > 0 \<or> below > 0 then 1 + above + below else 0)
         + (if left > 0 \<or> right > 0 then 1 + left + right else 0)
         + (if above = 0 \<and> below = 0 \<and> left = 0 \<and> right = 0 then 1 else 0))"
      unfolding tile_score_def GRID_SIZE_def using len l by (simp add: upt_conv_Cons eval_nat_numeral del: run_count.simps)
    also have "\<dots> = 4" using H V unfolding Let_def by (elim disjE conjE) simp_all
    finally show ?thesis by (simp add: BLUE grid_scheme_def)
  next
    case YELLOW
    have H: "(run_count [g ! 2 ! 2, g ! 2 ! 1, g ! 2 ! 0] = 1 \<and> run_count [g ! 2 ! 4] = 0) \<or> (run_count [g ! 2 ! 2, g ! 2 ! 1, g ! 2 ! 0] = 0 \<and> run_count [g ! 2 ! 4] = 1)"
      using h b[of 2 0] b[of 2 1] b[of 2 2] b[of 2 4]
      by (intro run_pair_edge3) (simp_all add: YELLOW grid_scheme_def occupied_def)
    have V: "(run_count [g ! 1 ! 3, g ! 0 ! 3] = 1 \<and> run_count [g ! 3 ! 3, g ! 4 ! 3] = 0) \<or> (run_count [g ! 1 ! 3, g ! 0 ! 3] = 0 \<and> run_count [g ! 3 ! 3, g ! 4 ! 3] = 1)"
      using v b[of 0 3] b[of 1 3] b[of 3 3] b[of 4 3]
      by (intro run_pair) (simp_all add: YELLOW grid_scheme_def occupied_def)
    have "tile_score (g[2 := (g ! 2)[3 := 1]]) 2 3 =
          (let above = run_count [g ! 2 ! 2, g ! 2 ! 1, g ! 2 ! 0]; below = run_count [g ! 2 ! 4];
               left = run_count [g ! 1 ! 3, g ! 0 ! 3]; right = run_count [g ! 3 ! 3, g ! 4 ! 3]
           in (if above > 0 \<or> below > 0 then 1 + above + below else 0)
         + (if left > 0 \<or> right > 0 then 1 + left + right else 0)
         + (if above = 0 \<and> below = 0 \<and> left = 0 \<and> right = 0 then 1 else 0))"
      unfolding tile_score_def GRID_SIZE_def using len l by (simp add: upt_conv_Cons eval_nat_numeral del: run_count.simps)
    also have "\<dots> = 4" using H V unfolding Let_def by (elim disjE conjE) simp_all
    finally show ?thesis by (simp add: YELLOW grid_scheme_def)
  next
    case RED
    have H: "run_count [g ! 2 ! 3, g ! 2 ! 2, g ! 2 ! 1, g ! 2 ! 0] = 1 \<and> run_count [] = 0"
      using h b[of 2 0] b[of 2 1] b[of 2 2] b[of 2 3]
      by (intro run_pair_edge4) (simp_all add: RED grid_scheme_def occupied_def)
    have V: "(run_count [g ! 1 ! 4, g ! 0 ! 4] = 1 \<and> run_count [g ! 3 ! 4, g ! 4 ! 4] = 0) \<or> (run_count [g ! 1 ! 4, g ! 0 ! 4] = 0 \<and> run_count [g ! 3 ! 4, g ! 4 ! 4] = 1)"
      using v b[of 0 4] b[of 1 4] b[of 3 4] b[of 4 4]
      by (intro run_pair) (simp_all add: RED grid_scheme_def occupied_def)
    have "tile_score (g[2 := (g ! 2)[4 := 1]]) 2 4 =
          (let above = run_count [g ! 2 ! 3, g ! 2 ! 2, g ! 2 ! 1, g ! 2 ! 0]; below = run_count [];
               left = run_count [g ! 1 ! 4, g ! 0 ! 4]; right = run_count [g ! 3 ! 4, g ! 4 ! 4]
           in (if above > 0 \<or> below > 0 then 1 + above + below else 0)
         + (if left > 0 \<or> right > 0 then 1 + left + right else 0)
         + (if above = 0 \<and> below = 0 \<and> left = 0 \<and> right = 0 then 1 else 0))"
      unfolding tile_score_def GRID_SIZE_def using len l by (simp add: upt_conv_Cons eval_nat_numeral del: run_count.simps)
    also have "\<dots> = 4" using H V unfolding Let_def by (elim disjE conjE) simp_all
    finally show ?thesis by (simp add: RED grid_scheme_def)
  next
    case BLACK
    have H: "run_count [] = 0 \<and> run_count [g ! 2 ! 1, g ! 2 ! 2, g ! 2 ! 3, g ! 2 ! 4] = 1"
      using h b[of 2 1] b[of 2 2] b[of 2 3] b[of 2 4]
      by (intro run_pair_edge0) (simp_all add: BLACK grid_scheme_def occupied_def)
    have V: "(run_count [g ! 1 ! 0, g ! 0 ! 0] = 1 \<and> run_count [g ! 3 ! 0, g ! 4 ! 0] = 0) \<or> (run_count [g ! 1 ! 0, g ! 0 ! 0] = 0 \<and> run_count [g ! 3 ! 0, g ! 4 ! 0] = 1)"
      using v b[of 0 0] b[of 1 0] b[of 3 0] b[of 4 0]
      by (intro run_pair) (simp_all add: BLACK grid_scheme_def occupied_def)
    have "tile_score (g[2 := (g ! 2)[0 := 1]]) 2 0 =
          (let above = run_count []; below = run_count [g ! 2 ! 1, g ! 2 ! 2, g ! 2 ! 3, g ! 2 ! 4];
               left = run_count [g ! 1 ! 0, g ! 0 ! 0]; right = run_count [g ! 3 ! 0, g ! 4 ! 0]
           in (if above > 0 \<or> below > 0 then 1 + above + below else 0)
         + (if left > 0 \<or> right > 0 then 1 + left + right else 0)
         + (if above = 0 \<and> below = 0 \<and> left = 0 \<and> right = 0 then 1 else 0))"
      unfolding tile_score_def GRID_SIZE_def using len l by (simp add: upt_conv_Cons eval_nat_numeral del: run_count.simps)
    also have "\<dots> = 4" using H V unfolding Let_def by (elim disjE conjE) simp_all
    finally show ?thesis by (simp add: BLACK grid_scheme_def)
  next
    case WHITE
    have H: "(run_count [g ! 2 ! 0] = 1 \<and> run_count [g ! 2 ! 2, g ! 2 ! 3, g ! 2 ! 4] = 0) \<or> (run_count [g ! 2 ! 0] = 0 \<and> run_count [g ! 2 ! 2, g ! 2 ! 3, g ! 2 ! 4] = 1)"
      using h b[of 2 0] b[of 2 2] b[of 2 3] b[of 2 4]
      by (intro run_pair_edge1) (simp_all add: WHITE grid_scheme_def occupied_def)
    have V: "(run_count [g ! 1 ! 1, g ! 0 ! 1] = 1 \<and> run_count [g ! 3 ! 1, g ! 4 ! 1] = 0) \<or> (run_count [g ! 1 ! 1, g ! 0 ! 1] = 0 \<and> run_count [g ! 3 ! 1, g ! 4 ! 1] = 1)"
      using v b[of 0 1] b[of 1 1] b[of 3 1] b[of 4 1]
      by (intro run_pair) (simp_all add: WHITE grid_scheme_def occupied_def)
    have "tile_score (g[2 := (g ! 2)[1 := 1]]) 2 1 =
          (let above = run_count [g ! 2 ! 0]; below = run_count [g ! 2 ! 2, g ! 2 ! 3, g ! 2 ! 4];
               left = run_count [g ! 1 ! 1, g ! 0 ! 1]; right = run_count [g ! 3 ! 1, g ! 4 ! 1]
           in (if above > 0 \<or> below > 0 then 1 + above + below else 0)
         + (if left > 0 \<or> right > 0 then 1 + left + right else 0)
         + (if above = 0 \<and> below = 0 \<and> left = 0 \<and> right = 0 then 1 else 0))"
      unfolding tile_score_def GRID_SIZE_def using len l by (simp add: upt_conv_Cons eval_nat_numeral del: run_count.simps)
    also have "\<dots> = 4" using H V unfolding Let_def by (elim disjE conjE) simp_all
    finally show ?thesis by (simp add: WHITE grid_scheme_def)
  qed
qed

lemma score_lines_fixture:
  assumes "scoring_fixture a tc"
  shows "\<exists>a'. score_lines a = Inr (a', [tc, tc], 4)"
proof -
  let ?g = "grid_state a"
  from assms have len: "length ?g = 5"
    and rows: "\<forall>row \<in> set ?g. length row = 5 \<and> (\<forall>v \<in> set row. v = 0 \<or> v = 1)"
    and h: "one_neighbour (occupied ?g 2 (int (grid_scheme 2 tc) - 2))
              (occupied ?g 2 (int (grid_scheme 2 tc) - 1))
              (occupied ?g 2 (int (grid_scheme 2 tc) + 1))
              (occupied ?g 2 (int (grid_scheme 2 tc) + 2))"
    and v: "one_neighbour (occupied ?g 0 (int (grid_scheme 2 tc)))
              (occupied ?g 1 (int (grid_scheme 2 tc)))
              (occupied ?g 3 (int (grid_scheme 2 tc))) (occupied ?g 4 (int (grid_scheme 2 tc)))"
    by (simp_all add: scoring_fixture_def Let_def)
  note ts = tile_score_fixture[OF len rows h v]
  from assms have n: "lines_number a ! 0 \<noteq> 1" "lines_number a ! 1 \<noteq> 2" "lines_number a ! 2 = 3"
    "lines_number a ! 3 \<noteq> 4" "lines_number a ! 4 \<noteq> 5" "lines_tile a ! 2 = Some tc"
    "length (lines_number a) = 5"
    by (simp_all add: scoring_fixture_def Let_def)
  show ?thesis
    using n ts by (simp add: score_lines_def score_line_def Let_def eval_nat_numeral)
qed

text \<open>
  C2 (as amended). On the fixture, round scoring raises the score by exactly 4: 2 for the
  horizontal run of 2 and 2 for the vertical run of 2.
\<close>

theorem ScoreRound_fixture_delta:
  assumes "scoring_fixture a tc"
  shows "\<not> isl (ScoreRound a) \<and> round_delta a = 4"
proof -
  from score_lines_fixture[OF assms] obtain a1 where sl: "score_lines a = Inr (a1, [tc, tc], 4)"
    by blast
  then have k: "score a1 = score a" "floor a1 = floor a" "agent_trace a1 = agent_trace a"
    using fold_score_line_keeps[of "[0, 1, 2, 3, 4]" a "[]" 0 a1 "[tc, tc]" 4]
    by (simp_all add: score_lines_def)
  from assms have f: "floor a = [0, 0, 0, 0, 0, 0, 0]" "round_scores (agent_trace a) \<noteq> []"
    by (simp_all add: scoring_fixture_def Let_def)
  have p: "floor_penalties [0, 0, 0, 0, 0, 0, 0] = 0" by code_simp
  show ?thesis
    using sl k f p
    by (auto simp: round_delta_def ScoreRound_def Let_def FLOOR_SCORES_def split: list.splits)
qed

theorem ScoreRound_fixture_delta_witness:
  "scoring_fixture board_two_neighbours BLUE \<and> round_delta board_two_neighbours = 4"
proof -
  have h: "scoring_fixture board_two_neighbours BLUE" by code_simp
  from ScoreRound_fixture_delta[OF h] h show ?thesis by simp
qed

text \<open>The fixture scores 4, not 2.\<close>

theorem ScoreRound_fixture_not_2:
  "scoring_fixture board_two_neighbours BLUE \<and> \<not> isl (ScoreRound board_two_neighbours) \<and>
   round_delta board_two_neighbours \<noteq> 2"
  by code_simp

section \<open>Cloning\<close>

text \<open>
  C4 (the code misses a field). \<^verbatim>\<open>clone\<close> copies score, pattern lines, grid, floor and trace
  of every agent but not \<^verbatim>\<open>number_of\<close>, which stays as the fresh \<^verbatim>\<open>AgentState\<close> has it
  (all zero); \<^verbatim>\<open>_create_immutable_copy\<close> and \<^verbatim>\<open>from_immutable\<close> do copy it. For a board
  with the five blue tiles placed, the clone counts no blue tile, and the end-of-game bonus
  of the clone is 0 where that of the source is 10.
\<close>

theorem clone_drops_number_of:
  "\<not> isl (clone id 0 state_blue_set) \<and>
   number_of (agents state_blue_set ! 0) BLUE = 5 \<and>
   number_of (agents (projr (clone id 0 state_blue_set)) ! 0) BLUE = 0 \<and>
   snd (EndOfGameScore (agents state_blue_set ! 0)) = 10 \<and>
   snd (EndOfGameScore (agents (projr (clone id 0 state_blue_set)) ! 0)) = 0"
  by code_simp

section \<open>Construction\<close>

lemma InitialiseFactory_agents: "agents (snd (InitialiseFactory shuf s)) = agents s"
  by (simp add: InitialiseFactory_def Let_def)

lemma InitialiseFactory_factories: "factories (snd (InitialiseFactory shuf s)) = factories s"
  by (simp add: InitialiseFactory_def Let_def)

lemma deal_fold:
  "length (factories (fold (\<lambda>_ s. case InitialiseFactory shuf s of
                               (fd, s') \<Rightarrow> s'\<lparr>factories := factories s' @ [fd]\<rparr>) xs s))
     = length (factories s) + length xs \<and>
   agents (fold (\<lambda>_ s. case InitialiseFactory shuf s of
                               (fd, s') \<Rightarrow> s'\<lparr>factories := factories s' @ [fd]\<rparr>) xs s) = agents s"
proof (induction xs arbitrary: s)
  case Nil
  then show ?case by simp
next
  case (Cons x xs)
  show ?case
    using InitialiseFactory_agents[of shuf s] InitialiseFactory_factories[of shuf s]
    by (cases "InitialiseFactory shuf s") (simp add: Cons.IH)
qed

text \<open>
  C9 (as amended). \<^verbatim>\<open>AzulState(num_agents)\<close> checks nothing: for every agent count of at
  least 1 it returns a state with that many boards and 5 factories.
\<close>

theorem AzulState_init_any_count:
  assumes "0 < n"
  shows "\<not> isl (AzulState_init shuf rnd n) \<and>
         length (factories (projr (AzulState_init shuf rnd n))) = 5 \<and>
         length (agents (projr (AzulState_init shuf rnd n))) = nat n"
  using assms deal_fold[of shuf "[0..<5]"]
  by (simp add: AzulState_init_def Let_def NUM_FACTORIES_def)

theorem AzulState_init_any_count_witness:
  "(0::int) < 4 \<and> \<not> isl (AzulState_init rev 7 4) \<and>
   length (factories (projr (AzulState_init rev 7 4))) = 5 \<and>
   length (agents (projr (AzulState_init rev 7 4))) = 4"
  using AzulState_init_any_count[of 4 rev 7] by simp

text \<open>Only a count below 1 fails, in \<^verbatim>\<open>random.randrange\<close>, with ValueError.\<close>

lemma AzulState_init_nonpositive: "n \<le> 0 \<Longrightarrow> AzulState_init shuf rnd n = Inl ValueError"
  by (simp add: AzulState_init_def Let_def)

text \<open>Three agents are accepted.\<close>

theorem AzulState_init_accepts_3:
  "\<not> isl (AzulState_init id 0 3) \<and> length (factories (projr (AzulState_init id 0 3))) = 5 \<and>
   length (agents (projr (AzulState_init id 0 3))) = 3"
  by code_simp

section \<open>Actions outside the legal ones\<close>

text \<open>In the fresh state agent 0 may not take one blue tile of factory 0 to nowhere;
  \<^verbatim>\<open>generateSuccessor\<close> applies it all the same, and the centre pool changes.\<close>

theorem generateSuccessor_applies_illegal:
  "\<not> isl (getLegalActions 2 state_fresh 0) \<and>
   grab_one_lost \<notin> set (projr (getLegalActions 2 state_fresh 0)) \<and>
   \<not> isl (generateSuccessor id state_fresh grab_one_lost 0) \<and>
   total (centre_pool (projr (generateSuccessor id state_fresh grab_one_lost 0))) = 3 \<and>
   total (centre_pool state_fresh) = 0"
  by code_simp

lemma ReactionTiles_rejects:
  "n \<le> 0 \<or> tiles d t < n \<Longrightarrow> ReactionTiles d n t = Inl AssertionError"
  by (auto simp: ReactionTiles_def Let_def)

text \<open>
  C8 (as amended). \<^verbatim>\<open>generateSuccessor\<close> rejects a take whose number of tiles is not
  positive or exceeds what the source display holds of that colour, whoever the agent is.
\<close>

theorem generateSuccessor_rejects_overdraw:
  assumes "source_display s kind fid = Some d"
    and "number tg \<le> 0 \<or> tiles d (tile_type tg) < number tg"
  shows "isl (generateSuccessor shuf s (Take kind fid tg) agent_id)"
proof (cases kind)
  case TAKE_FROM_FACTORY
  with assms(1) obtain f where f: "py_idx (length (factories s)) fid = Some f" "d = factories s ! f"
    by (auto simp: source_display_def)
  with assms(2) have "ReactionTiles (factories s ! f) (number tg) (tile_type tg) = Inl AssertionError"
    by (intro ReactionTiles_rejects) simp
  with f TAKE_FROM_FACTORY show ?thesis
    by (simp add: generateSuccessor_def Let_def split: option.splits sum.splits prod.splits)
next
  case TAKE_FROM_CENTRE
  with assms(1) have d: "d = centre_pool s" by (simp add: source_display_def)
  with assms(2) have "ReactionTiles (centre_pool s) (number tg) (tile_type tg) = Inl AssertionError"
    by (intro ReactionTiles_rejects) simp
  with TAKE_FROM_CENTRE show ?thesis
    by (simp add: generateSuccessor_def Let_def split: option.splits sum.splits prod.splits)
qed

lemma state_fresh_factories: "length (factories state_fresh) = 5"
  by code_simp

theorem generateSuccessor_rejects_overdraw_witness:
  "source_display state_fresh TAKE_FROM_FACTORY 0 = Some (factories state_fresh ! 0) \<and>
   tiles (factories state_fresh ! 0) (tile_type grab_five) < number grab_five \<and>
   isl (generateSuccessor id state_fresh (Take TAKE_FROM_FACTORY 0 grab_five) 0)"
proof -
  have a: "source_display state_fresh TAKE_FROM_FACTORY 0 = Some (factories state_fresh ! 0)"
    by (simp add: source_display_def py_idx_def state_fresh_factories)
  have b: "tiles (factories state_fresh ! 0) (tile_type grab_five) < number grab_five"
    by code_simp
  from generateSuccessor_rejects_overdraw[OF a disjI2[OF b], of id 0] a b show ?thesis by simp
qed

section \<open>The round that nobody can end\<close>

lemma tiles_zero:
  assumes "display_ok d" "total d \<le> 0"
  shows "tiles d t = 0"
proof -
  from assms have s: "tiles d BLUE + tiles d YELLOW + tiles d RED + tiles d BLACK + tiles d WHITE \<le> 0"
    and n: "0 \<le> tiles d BLUE" "0 \<le> tiles d YELLOW" "0 \<le> tiles d RED" "0 \<le> tiles d BLACK"
      "0 \<le> tiles d WHITE"
    by (simp_all add: display_ok_def all_tiles_def)
  then show ?thesis by (cases t) simp_all
qed

lemma tile_actions_none: "tile_actions a kind fid t 0 = []"
  by (simp add: tile_actions_def)

text \<open>
  C10. When no display holds a tile and nobody took from the centre in the round
  (\<open>next_first_agent\<close> is still \<open>-1\<close>), no agent id is offered \<^verbatim>\<open>"ENDROUND"\<close>, and a
  drafting agent gets the empty list of actions.
\<close>

theorem no_move_when_token_unclaimed:
  assumes "\<not> TilesRemaining s" and "next_first_agent s = - 1"
    and "display_ok (centre_pool s)" and "\<forall>d \<in> set (factories s). display_ok d"
    and "agent_id \<noteq> n" and "0 \<le> agent_id" and "agent_id < int (length (agents s))"
  shows "(\<forall>a. getLegalActions n s a \<noteq> Inr [ENDROUND]) \<and> getLegalActions n s agent_id = Inr []"
proof -
  from assms(1,3) have c: "\<And>t. tiles (centre_pool s) t = 0"
    by (intro tiles_zero) (auto simp: TilesRemaining_def)
  from assms(1,4) have f: "\<And>k t. k < length (factories s) \<Longrightarrow> tiles (factories s ! k) t = 0"
    by (intro tiles_zero) (auto simp: TilesRemaining_def not_less)
  have fs: "concat (map (\<lambda>fid. concat (map (\<lambda>tile.
               tile_actions a TAKE_FROM_FACTORY (int fid) tile
                 (tiles (factories s ! fid) tile)) all_tiles)) [0..<length (factories s)]) = []" for a
    by (simp add: f tile_actions_none)
  have cs: "concat (map (\<lambda>tile. tile_actions a TAKE_FROM_CENTRE (- 1) tile
               (tiles (centre_pool s) tile)) all_tiles) = []" for a
    by (simp add: c tile_actions_none)
  have e: "getLegalActions n s a \<noteq> Inr [ENDROUND]" for a
    using assms(2)
    by (simp add: getLegalActions_def Let_def fs cs split: option.splits)
  have "getLegalActions n s agent_id = Inr []"
    using assms(2,5,6,7)
    by (simp add: getLegalActions_def Let_def fs cs py_idx_def)
  with e show ?thesis by blast
qed

text \<open>The id \<open>num_of_agent\<close> is offered \<^verbatim>\<open>"STARTROUND"\<close> there.\<close>

lemma startround_when_token_unclaimed:
  assumes "\<not> TilesRemaining s" and "next_first_agent s = - 1"
  shows "getLegalActions n s n = Inr [STARTROUND]"
  using assms by (simp add: getLegalActions_def)

theorem no_move_when_token_unclaimed_witness:
  "\<not> TilesRemaining state_unclaimed \<and> next_first_agent state_unclaimed = - 1 \<and>
   getLegalActions 2 state_unclaimed 0 = Inr []"
proof -
  have h: "\<not> TilesRemaining state_unclaimed" "next_first_agent state_unclaimed = - 1"
    "display_ok (centre_pool state_unclaimed)" "\<forall>d \<in> set (factories state_unclaimed). display_ok d"
    "(0::int) \<noteq> 2" "(0::int) \<le> 0" "0 < int (length (agents state_unclaimed))"
    by code_simp+
  from no_move_when_token_unclaimed[OF h] h show ?thesis by simp
qed

section \<open>Legal actions of a drafting turn\<close>

lemma grid_scheme_less: "i < 5 \<Longrightarrow> grid_scheme i t < 5"
proof -
  assume "i < 5"
  then have "i = 0 \<or> i = 1 \<or> i = 2 \<or> i = 3 \<or> i = 4" by arith
  then show ?thesis by (cases t) (auto simp: grid_scheme_def)
qed

lemma eligible_line_code:
  "i < 5 \<Longrightarrow> eligible_line a t i \<longleftrightarrow>
     \<not> (lines_tile a ! i \<noteq> None \<and> lines_tile a ! i \<noteq> Some t) \<and>
     grid_state a ! i ! grid_scheme i t \<noteq> 1"
  using grid_scheme_less[of i t] by (auto simp: eligible_line_def occupied_def)

lemma set_line_action:
  "i < 5 \<Longrightarrow> set (line_action a kind fid t c i) =
     (if eligible_line a t i then {line_take kind fid a t c i} else {})"
  by (simp add: eligible_line_code)
     (auto simp: line_action_def line_take_def TileGrab_init_def Let_def)

lemma distinct_line_action: "distinct (line_action a kind fid t c i)"
  by (simp add: line_action_def Let_def)

lemma line_take_inj:
  "line_take kind fid a t c i = line_take kind' fid' a' t' c' i' \<Longrightarrow>
     kind = kind' \<and> fid = fid' \<and> t = t' \<and> i = i'"
  by (simp add: line_take_def)

lemma floor_take_inj:
  "floor_take kind fid t c = floor_take kind' fid' t' c' \<Longrightarrow> kind = kind' \<and> fid = fid' \<and> t = t'"
  by (simp add: floor_take_def)

lemma line_take_not_floor: "line_take kind fid a t c i \<noteq> floor_take kind' fid' t' c'"
  by (simp add: line_take_def floor_take_def)

lemma distinct_concat_map:
  assumes "distinct xs"
    and "\<And>x. x \<in> set xs \<Longrightarrow> distinct (f x)"
    and "\<And>x y. x \<in> set xs \<Longrightarrow> y \<in> set xs \<Longrightarrow> x \<noteq> y \<Longrightarrow> set (f x) \<inter> set (f y) = {}"
  shows "distinct (concat (map f xs))"
  using assms
proof (induction xs)
  case Nil
  then show ?case by simp
next
  case (Cons x xs)
  have "distinct (concat (map f xs))"
    by (rule Cons.IH) (use Cons.prems in auto)
  moreover have "set (f x) \<inter> set (f y) = {}" if "y \<in> set xs" for y
    using Cons.prems(1) that by (intro Cons.prems(3)) auto
  ultimately show ?case using Cons.prems(2)[of x] by auto
qed

lemma set_tile_actions:
  "set (tile_actions a kind fid t c) =
     (if c = 0 then {}
      else insert (floor_take kind fid t c)
             {x. \<exists>i<5. eligible_line a t i \<and> x = line_take kind fid a t c i})"
proof -
  have u: "(\<Union>i \<in> {0, 1, 2, 3, 4}. set (line_action a kind fid t c i)) =
           {x. \<exists>i<5. eligible_line a t i \<and> x = line_take kind fid a t c i}" (is "?L = ?R")
  proof
    show "?L \<subseteq> ?R"
    proof
      fix x assume "x \<in> ?L"
      then obtain i where i: "i \<in> {0, 1, 2, 3, 4::nat}" "x \<in> set (line_action a kind fid t c i)"
        by blast
      then have "i < 5" by auto
      with i(2) set_line_action[of i a kind fid t c]
      have "eligible_line a t i \<and> x = line_take kind fid a t c i"
        by (simp split: if_splits)
      with \<open>i < 5\<close> show "x \<in> ?R" by blast
    qed
    show "?R \<subseteq> ?L"
    proof
      fix x assume "x \<in> ?R"
      then obtain i where i: "i < 5" "eligible_line a t i" "x = line_take kind fid a t c i" by blast
      then have "i \<in> {0, 1, 2, 3, 4}" by auto
      moreover have "x \<in> set (line_action a kind fid t c i)" using i set_line_action[of i] by simp
      ultimately show "x \<in> ?L" by blast
    qed
  qed
  show ?thesis
    using u by (simp add: tile_actions_def floor_take_def TileGrab_init_def)
qed

lemma distinct_tile_actions: "distinct (tile_actions a kind fid t c)"
proof -
  have d: "distinct (concat (map (line_action a kind fid t c) [0, 1, 2, 3, 4]))"
  proof (rule distinct_concat_map)
    show "distinct [0, 1, 2, 3, 4::nat]" by simp
    show "distinct (line_action a kind fid t c x)" for x by (rule distinct_line_action)
    show "set (line_action a kind fid t c x) \<inter> set (line_action a kind fid t c y) = {}"
      if "x \<in> set [0, 1, 2, 3, 4]" "y \<in> set [0, 1, 2, 3, 4]" "x \<noteq> y" for x y
    proof -
      from that have "x < 5" "y < 5" by auto
      then show ?thesis
        using that(3) line_take_inj[of kind fid a t c x kind fid a t c y]
        by (auto simp: set_line_action)
    qed
  qed
  have n: "floor_take kind fid t c \<notin> set (concat (map (line_action a kind fid t c) [0, 1, 2, 3, 4]))"
  proof
    assume "floor_take kind fid t c \<in> set (concat (map (line_action a kind fid t c) [0, 1, 2, 3, 4]))"
    then obtain i where i: "i \<in> {0, 1, 2, 3, 4::nat}"
      "floor_take kind fid t c \<in> set (line_action a kind fid t c i)"
      by auto
    then have "i < 5" by auto
    with i(2) set_line_action[of i a kind fid t c]
    have "floor_take kind fid t c = line_take kind fid a t c i"
      by (simp split: if_splits)
    then show False using line_take_not_floor[of kind fid a t c i kind fid t c] by simp
  qed
  show ?thesis
    using d n by (simp add: tile_actions_def floor_take_def TileGrab_init_def)
qed

lemma set_all_tiles: "set all_tiles = UNIV"
proof -
  have "t \<in> set all_tiles" for t by (cases t) (simp_all add: all_tiles_def)
  then show ?thesis by blast
qed

lemma display_ok_nonneg: "display_ok d \<Longrightarrow> 0 \<le> tiles d t"
  using set_all_tiles by (auto simp: display_ok_def)

lemma set_display_list:
  assumes "display_ok d"
  shows "set (concat (map (\<lambda>tile. tile_actions a kind fid tile (tiles d tile)) all_tiles))
           = display_takes kind fid d a"
proof -
  have z: "tiles d t \<noteq> 0 \<longleftrightarrow> 1 \<le> tiles d t" for t
    using display_ok_nonneg[OF assms, of t] by arith
  show ?thesis
    by (auto simp: set_all_tiles set_tile_actions display_takes_def z split: if_splits)
qed

lemma display_takes_shape:
  "x \<in> display_takes kind fid d a \<Longrightarrow> \<exists>tg. x = Take kind fid tg"
  by (auto simp: display_takes_def floor_take_def line_take_def)

lemma distinct_display_list:
  "distinct (concat (map (\<lambda>tile. tile_actions a kind fid tile (tiles d tile)) all_tiles))"
proof (rule distinct_concat_map)
  show "distinct all_tiles" by (simp add: all_tiles_def)
  show "distinct (tile_actions a kind fid x (tiles d x))" for x by (rule distinct_tile_actions)
  show "set (tile_actions a kind fid x (tiles d x)) \<inter> set (tile_actions a kind fid y (tiles d y)) = {}"
    if "x \<noteq> y" for x y
  proof -
    have "z \<notin> set (tile_actions a kind fid y (tiles d y))"
      if z: "z \<in> set (tile_actions a kind fid x (tiles d x))" for z
    proof -
      from z have "\<exists>tg. z = Take kind fid tg \<and> tile_type tg = x"
        by (auto simp: set_tile_actions floor_take_def line_take_def split: if_splits)
      moreover have "tile_type tg = y"
        if "Take kind fid tg \<in> set (tile_actions a kind fid y (tiles d y))" for tg
        using that by (auto simp: set_tile_actions floor_take_def line_take_def split: if_splits)
      ultimately show ?thesis using \<open>x \<noteq> y\<close> by blast
    qed
    then show ?thesis by blast
  qed
qed

text \<open>
  C5. On a drafting turn of agent \<open>agent_id\<close> (tiles remain, the id is that of a board), the
  list \<^verbatim>\<open>getLegalActions\<close> returns has no action twice, and its actions are exactly: for
  every display and every colour with at least one tile there, the take of all these tiles to
  each eligible pattern line, and their take to the floor line.
\<close>

theorem getLegalActions_drafting:
  assumes "TilesRemaining s"
    and "agent_id \<noteq> n" and "0 \<le> agent_id" and "agent_id < int (length (agents s))"
    and "display_ok (centre_pool s)" and "\<forall>d \<in> set (factories s). display_ok d"
  shows "\<exists>acts. getLegalActions n s agent_id = Inr acts \<and> distinct acts \<and>
           set acts = drafting_actions s (agents s ! nat agent_id)"
proof -
  let ?a = "agents s ! nat agent_id"
  let ?fl = "\<lambda>fid. concat (map (\<lambda>tile. tile_actions ?a TAKE_FROM_FACTORY (int fid) tile
                                  (tiles (factories s ! fid) tile)) all_tiles)"
  let ?fs = "concat (map ?fl [0..<length (factories s)])"
  let ?c = "concat (map (\<lambda>tile. tile_actions ?a TAKE_FROM_CENTRE (- 1) tile
                           (tiles (centre_pool s) tile)) all_tiles)"
  have g: "getLegalActions n s agent_id = Inr (?fs @ ?c)"
    using assms(1-4) by (simp add: getLegalActions_def py_idx_def Let_def)
  have fk: "set (?fl k) = display_takes TAKE_FROM_FACTORY (int k) (factories s ! k) ?a"
    if "k < length (factories s)" for k
    using that assms(6) by (intro set_display_list) simp
  have sc: "set ?c = display_takes TAKE_FROM_CENTRE (- 1) (centre_pool s) ?a"
    using assms(5) by (intro set_display_list)
  have sf: "set ?fs = (\<Union>k<length (factories s).
               display_takes TAKE_FROM_FACTORY (int k) (factories s ! k) ?a)"
    using fk by auto
  have df: "distinct ?fs"
  proof (rule distinct_concat_map)
    show "distinct [0..<length (factories s)]" by simp
    show "distinct (?fl x)" for x by (rule distinct_display_list)
    show "set (?fl x) \<inter> set (?fl y) = {}"
      if "x \<in> set [0..<length (factories s)]" "y \<in> set [0..<length (factories s)]" "x \<noteq> y"
      for x y
    proof -
      from that have "x < length (factories s)" "y < length (factories s)" by auto
      then have sx: "set (?fl x) = display_takes TAKE_FROM_FACTORY (int x) (factories s ! x) ?a"
        and sy: "set (?fl y) = display_takes TAKE_FROM_FACTORY (int y) (factories s ! y) ?a"
        using fk by blast+
      have "z \<notin> set (?fl y)" if "z \<in> set (?fl x)" for z
      proof -
        from that sx obtain tg where "z = Take TAKE_FROM_FACTORY (int x) tg"
          using display_takes_shape by blast
        moreover have "int x \<noteq> int y" using \<open>x \<noteq> y\<close> by simp
        ultimately show ?thesis
          using sy display_takes_shape[of z TAKE_FROM_FACTORY "int y" "factories s ! y" ?a] by auto
      qed
      then show ?thesis by blast
    qed
  qed
  have dj: "set ?fs \<inter> set ?c = {}"
  proof -
    have "x \<notin> set ?c" if "x \<in> set ?fs" for x
    proof -
      from that sf obtain k where "x \<in> display_takes TAKE_FROM_FACTORY (int k) (factories s ! k) ?a"
        by auto
      then obtain tg where "x = Take TAKE_FROM_FACTORY (int k) tg"
        using display_takes_shape by blast
      then show ?thesis
        using sc display_takes_shape[of x TAKE_FROM_CENTRE "- 1" "centre_pool s" ?a] by auto
    qed
    then show ?thesis by blast
  qed
  have "distinct (?fs @ ?c)"
    using df distinct_display_list[of ?a TAKE_FROM_CENTRE "- 1" "centre_pool s"] dj by simp
  moreover have "set (?fs @ ?c) = drafting_actions s ?a"
    using sf sc by (simp add: drafting_actions_def)
  ultimately show ?thesis using g by blast
qed

theorem getLegalActions_drafting_witness:
  "TilesRemaining state_draft \<and>
   distinct (projr (getLegalActions 2 state_draft 0)) \<and>
   set (projr (getLegalActions 2 state_draft 0)) = drafting_actions state_draft (agents state_draft ! 0) \<and>
   length (projr (getLegalActions 2 state_draft 0)) = 15"
proof -
  have h: "TilesRemaining state_draft" "(0::int) \<noteq> 2" "(0::int) \<le> 0"
    "0 < int (length (agents state_draft))"
    "display_ok (centre_pool state_draft)" "\<forall>d \<in> set (factories state_draft). display_ok d"
    by code_simp+
  have l: "length (projr (getLegalActions 2 state_draft 0)) = 15" by code_simp
  from getLegalActions_drafting[OF h] obtain acts where
    a: "getLegalActions 2 state_draft 0 = Inr acts" "distinct acts"
       "set acts = drafting_actions state_draft (agents state_draft ! nat 0)"
    by blast
  from a(1) have p: "projr (getLegalActions 2 state_draft 0) = acts" by simp
  show ?thesis
    unfolding p using h(1) a(2,3) l[unfolded p] by simp
qed

section \<open>Tile conservation\<close>

subsection \<open>Displays\<close>

lemma sum_list_update_int:
  "k < length xs \<Longrightarrow> sum_list (xs[k := y]) = sum_list xs - xs ! k + (y::int)"
  by (induction xs arbitrary: k) (auto split: nat.splits)

lemma display_count_upd:
  "display_count (d\<lparr>tiles := (tiles d)(t := v), total := w\<rparr>) = display_count d - tiles d t + v"
  by (cases t) (simp_all add: display_count_def all_tiles_def)

lemma display_count_init: "display_count TileDisplay_init = 0"
  by (simp add: display_count_def TileDisplay_init_def all_tiles_def)

lemma display_count_clear: "display_count (d\<lparr>tiles := (\<lambda>_. 0)\<rparr>) = 0"
  by (simp add: display_count_def all_tiles_def)

lemma display_count_zero:
  "\<forall>t \<in> set all_tiles. tiles d t = 0 \<Longrightarrow> display_count d = 0"
  by (simp add: display_count_def all_tiles_def)

lemma ReactionTiles_count:
  "ReactionTiles d n t = Inr d' \<Longrightarrow> display_count d' = display_count d - n \<and> 0 < n"
  by (auto simp: ReactionTiles_def Let_def display_count_upd split: if_splits)

lemma AddTiles_count: "AddTiles d n t = Inr d' \<Longrightarrow> display_count d' = display_count d + n"
  by (auto simp: AddTiles_def display_count_upd split: if_splits)

lemma overflow_tile_count:
  "overflow_tile t (c, f) = Inr (c', f') \<Longrightarrow>
     display_count c' + display_count f' = display_count c + display_count f"
  by (auto simp: overflow_tile_def Let_def split: if_splits sum.splits
           dest!: ReactionTiles_count AddTiles_count)

lemma fold_overflow_count:
  "fold_e overflow_tile ts (c, f) = Inr (c', f') \<Longrightarrow>
     display_count c' + display_count f' = display_count c + display_count f"
proof (induction ts arbitrary: c f)
  case Nil
  then show ?case by simp
next
  case (Cons t ts)
  then obtain c1 f1 where s: "overflow_tile t (c, f) = Inr (c1, f1)"
    and r: "fold_e overflow_tile ts (c1, f1) = Inr (c', f')"
    by (auto split: sum.splits)
  from Cons.IH[OF r] overflow_tile_count[OF s] show ?case by simp
qed

lemma draw_count:
  "display_count (fold (\<lambda>tile d. d\<lparr>tiles := (tiles d)(tile := tiles d tile + 1),
                                    total := total d + 1\<rparr>) xs d)
     = display_count d + int (length xs)"
  by (induction xs arbitrary: d) (simp_all add: display_count_upd)

lemma shuffles_length: "shuffles shuf \<Longrightarrow> length (shuf xs) = length xs"
  by (metis shuffles_def size_mset)

lemma InitialiseFactory_count:
  assumes "shuffles shuf" and "InitialiseFactory shuf s = (fd, s')"
  shows "display_count fd + int (length (bag s')) + int (length (bag_used s'))
           = int (length (bag s)) + int (length (bag_used s))"
    and "agents s' = agents s" and "factories s' = factories s"
    and "centre_pool s' = centre_pool s"
  using assms(2) shuffles_length[OF assms(1)]
  by (auto simp: InitialiseFactory_def Let_def draw_count display_count_init min_def
           split: if_splits)

subsection \<open>The fresh state\<close>

lemma all_less_5: "(\<forall>i<5. P i) \<longleftrightarrow> P 0 \<and> P 1 \<and> P 2 \<and> P 3 \<and> P (4::nat)"
proof -
  have "i < 5 \<longleftrightarrow> i = 0 \<or> i = 1 \<or> i = 2 \<or> i = 3 \<or> i = 4" for i :: nat by arith
  then show ?thesis by auto
qed

lemma board_init: "board_inv (AgentState_init i) \<and> board_count (AgentState_init i) = 0"
  by (simp add: board_inv_def board_count_def AgentState_init_def all_less_5)
     (simp add: eval_nat_numeral)

lemma deal_fold_count:
  assumes "shuffles shuf"
  shows "tile_count (fold (\<lambda>_ s. case InitialiseFactory shuf s of
                               (fd, s') \<Rightarrow> s'\<lparr>factories := factories s' @ [fd]\<rparr>) xs s)
           = tile_count s"
proof (induction xs arbitrary: s)
  case Nil
  then show ?case by simp
next
  case (Cons x xs)
  obtain fd s' where i: "InitialiseFactory shuf s = (fd, s')" by (cases "InitialiseFactory shuf s")
  have "tile_count (s'\<lparr>factories := factories s' @ [fd]\<rparr>) = tile_count s"
    using InitialiseFactory_count[OF assms i] by (simp add: tile_count_def)
  then show ?case using i by (simp add: Cons.IH)
qed

lemma AzulState_init_count:
  assumes "shuffles shuf" and "AzulState_init shuf rnd n = Inr s"
  shows "tile_count s = 100" and "\<forall>a \<in> set (agents s). board_inv a"
proof -
  let ?s0 = "\<lparr>agents = map (\<lambda>i. AgentState_init (int i)) [0..<nat n],
               bag = shuf (concat (replicate NUM_TILE_TYPE [BLUE, YELLOW, RED, BLACK, WHITE])),
               bag_used = [], factories = [], centre_pool = TileDisplay_init,
               first_agent_taken = False, first_agent = 0, next_first_agent = - 1\<rparr>"
  let ?s1 = "fold (\<lambda>_ s. case InitialiseFactory shuf s of
                            (fd, s') \<Rightarrow> s'\<lparr>factories := factories s' @ [fd]\<rparr>)
                  [0..<NUM_FACTORIES ! 0] ?s0"
  from assms(2) have s: "s = ?s1\<lparr>first_agent := int (rnd mod nat n)\<rparr>"
    by (simp add: AzulState_init_def Let_def split: if_splits)
  have z: "sum_list (map board_count (map (\<lambda>i. AgentState_init (int i)) xs)) = 0" for xs
    by (induction xs) (simp_all add: board_init)
  have l: "length (concat (replicate NUM_TILE_TYPE [BLUE, YELLOW, RED, BLACK, WHITE])) = 100"
    by (simp add: NUM_TILE_TYPE_def length_concat sum_list_replicate)
  have "tile_count ?s0 = 100"
    using z[of "[0..<nat n]"] l shuffles_length[OF assms(1)]
    by (simp add: tile_count_def display_count_init)
  then show "tile_count s = 100"
    using deal_fold_count[OF assms(1), of "[0..<NUM_FACTORIES ! 0]" ?s0] s
    by (simp add: tile_count_def)
  have "agents ?s1 = agents ?s0" using deal_fold[of shuf "[0..<NUM_FACTORIES ! 0]" ?s0] by simp
  then show "\<forall>a \<in> set (agents s). board_inv a" using s by (auto simp: board_init)
qed

subsection \<open>Refilling the factories\<close>

lemma refill_factory_count:
  assumes "shuffles shuf" and "k < length (factories s)"
  shows "tile_count (refill_factory shuf k s) = tile_count s - display_count (factories s ! k)"
    and "agents (refill_factory shuf k s) = agents s"
    and "centre_pool (refill_factory shuf k s) = centre_pool s"
    and "length (factories (refill_factory shuf k s)) = length (factories s)"
    and "\<And>j. j \<noteq> k \<Longrightarrow> factories (refill_factory shuf k s) ! j = factories s ! j"
proof -
  obtain fd s' where i: "InitialiseFactory shuf s = (fd, s')" by (cases "InitialiseFactory shuf s")
  note c = InitialiseFactory_count[OF assms(1) i]
  have r: "refill_factory shuf k s = s'\<lparr>factories := (factories s)[k := fd]\<rparr>"
    using i c(3) by (simp add: refill_factory_def)
  show "tile_count (refill_factory shuf k s) = tile_count s - display_count (factories s ! k)"
    using c assms(2) by (simp add: r tile_count_def map_update sum_list_update_int)
  show "agents (refill_factory shuf k s) = agents s" using c by (simp add: r)
  show "centre_pool (refill_factory shuf k s) = centre_pool s" using c by (simp add: r)
  show "length (factories (refill_factory shuf k s)) = length (factories s)" by (simp add: r)
  show "\<And>j. j \<noteq> k \<Longrightarrow> factories (refill_factory shuf k s) ! j = factories s ! j"
    by (simp add: r)
qed

lemma refill_fold_count:
  assumes "shuffles shuf" and "\<forall>d \<in> set (factories s). display_count d = 0"
    and "m \<le> length (factories s)"
  shows "tile_count (fold (refill_factory shuf) [0..<m] s) = tile_count s \<and>
         agents (fold (refill_factory shuf) [0..<m] s) = agents s \<and>
         centre_pool (fold (refill_factory shuf) [0..<m] s) = centre_pool s \<and>
         length (factories (fold (refill_factory shuf) [0..<m] s)) = length (factories s) \<and>
         (\<forall>j\<ge>m. factories (fold (refill_factory shuf) [0..<m] s) ! j = factories s ! j)"
  using assms(3)
proof (induction m)
  case 0
  then show ?case by simp
next
  case (Suc m)
  let ?r = "fold (refill_factory shuf) [0..<m] s"
  from Suc have ih: "tile_count ?r = tile_count s" "agents ?r = agents s"
    "centre_pool ?r = centre_pool s" "length (factories ?r) = length (factories s)"
    "\<forall>j\<ge>m. factories ?r ! j = factories s ! j"
    by simp_all
  have m: "m < length (factories ?r)" using Suc.prems ih(4) by simp
  have e: "display_count (factories ?r ! m) = 0"
    using ih(5) assms(2) Suc.prems by (simp add: nth_mem)
  note c = refill_factory_count[OF assms(1) m]
  have "\<forall>j\<ge>Suc m. factories (refill_factory shuf m ?r) ! j = factories s ! j"
    using c(5) ih(5) by simp
  then show ?case using c(1-4) ih e by simp
qed

lemma tile_count_centre:
  "tile_count (s\<lparr>centre_pool := c\<rparr>)
     = tile_count s - display_count (centre_pool s) + display_count c"
  by (simp add: tile_count_def)

lemma STARTROUND_count:
  assumes "shuffles shuf" and "displays_empty s"
    and "generateSuccessor shuf s STARTROUND agent_id = Inr s'"
  shows "tile_count s' = tile_count s"
    and "\<forall>a \<in> set (agents s). board_inv a \<Longrightarrow> \<forall>a \<in> set (agents s'). board_inv a"
proof -
  define s1 where
    "s1 = s\<lparr>agents := map (\<lambda>plr. plr\<lparr>agent_trace := StartRound (agent_trace plr)\<rparr>) (agents s)\<rparr>"
  define s2 where "s2 = fold (refill_factory shuf) [0..<length (factories s1)] s1"
  from assms(3) have s': "s' = s2\<lparr>centre_pool := (centre_pool s2)\<lparr>tiles := (\<lambda>_. 0)\<rparr>\<rparr>"
    by (simp add: generateSuccessor_def Let_def s1_def s2_def)
  have e: "\<forall>d \<in> set (factories s1). display_count d = 0" "display_count (centre_pool s) = 0"
    using assms(2) by (simp_all add: displays_empty_def display_count_zero s1_def)
  have b: "sum_list (map board_count
               (map (\<lambda>plr. plr\<lparr>agent_trace := StartRound (agent_trace plr)\<rparr>) xs))
           = sum_list (map board_count xs)" for xs
    by (induction xs) (simp_all add: board_count_def)
  have t1: "tile_count s1 = tile_count s"
    using b[of "agents s"] by (simp add: tile_count_def s1_def del: map_map)
  have f: "tile_count s2 = tile_count s1" "agents s2 = agents s1" "centre_pool s2 = centre_pool s1"
    using refill_fold_count[OF assms(1) e(1) le_refl] by (simp_all add: s2_def)
  have c1: "centre_pool s1 = centre_pool s" by (simp add: s1_def)
  show "tile_count s' = tile_count s"
    using f(1,3) t1 e(2) c1 by (simp add: s' tile_count_centre display_count_clear)
  show "\<forall>a \<in> set (agents s'). board_inv a" if "\<forall>a \<in> set (agents s). board_inv a"
  proof -
    have "agents s' = agents s1" using f(2) by (simp add: s')
    then show ?thesis using that by (auto simp: s1_def board_inv_def)
  qed
qed

subsection \<open>Scoring a round\<close>

lemma score_line_inv:
  assumes inv: "board_inv a" and i: "i < 5" and s: "score_line i (a, u, n) = Inr (a', u', n')"
  shows "board_inv a' \<and> board_count a' + int (length u') = board_count a + int (length u)"
proof (cases "lines_number a ! i = int i + 1")
  case False
  then show ?thesis using s inv by (simp add: score_line_def)
next
  case True
  from inv i have
    "0 < lines_number a ! i \<longrightarrow>
       (\<exists>tc. lines_tile a ! i = Some tc \<and> grid_state a ! i ! grid_scheme i tc = 0)"
    by (simp add: board_inv_def)
  with True obtain tc where tc: "lines_tile a ! i = Some tc"
    "grid_state a ! i ! grid_scheme i tc = 0"
    by auto
  define col where "col = grid_scheme i tc"
  define g where "g = (grid_state a)[i := (grid_state a ! i)[col := 1]]"
  have a': "a' = a\<lparr>number_of := (number_of a)(tc := number_of a tc + 1),
                    lines_tile := (lines_tile a)[i := None],
                    lines_number := (lines_number a)[i := 0],
                    grid_state := g\<rparr>"
    and u': "u' = u @ replicate i tc"
    using s True tc by (simp_all add: score_line_def Let_def g_def col_def)
  have len: "length (grid_state a) = 5" "length (lines_number a) = 5" "length (lines_tile a) = 5"
    and rows: "\<forall>row \<in> set (grid_state a). length row = 5 \<and> (\<forall>v \<in> set row. v = 0 \<or> v = 1)"
    and lines: "\<forall>j<5. lines_number a ! j \<le> int j + 1 \<and>
             (0 < lines_number a ! j \<longrightarrow>
                (\<exists>tc. lines_tile a ! j = Some tc \<and> grid_state a ! j ! grid_scheme j tc = 0))"
    using inv by (simp_all add: board_inv_def)
  have li: "length (grid_state a ! i) = 5" using cells5(2)[OF len(1) rows i] .
  have c5: "col < 5" using grid_scheme_less[OF i] by (simp add: col_def)
  have gs: "sum_list (map sum_list g) = sum_list (map sum_list (grid_state a)) + 1"
    using i len li c5 tc(2) by (simp add: g_def map_update sum_list_update_int col_def)
  have ls: "sum_list ((lines_number a)[i := 0]) = sum_list (lines_number a) - (int i + 1)"
    using True i len by (simp add: sum_list_update_int)
  have cnt: "board_count a' + int (length u') = board_count a + int (length u)"
    by (simp add: a' u' board_count_def gs ls)
  have grows: "length row = 5 \<and> (\<forall>v \<in> set row. v = 0 \<or> v = 1)" if "row \<in> set g" for row
  proof -
    from that have "row = (grid_state a ! i)[col := 1] \<or> row \<in> set (grid_state a)"
      using set_update_subset_insert[of "grid_state a" i] by (auto simp: g_def)
    then show ?thesis
    proof
      assume r: "row = (grid_state a ! i)[col := 1]"
      have "grid_state a ! i \<in> set (grid_state a)" using i len by simp
      with rows have "\<forall>v \<in> set (grid_state a ! i). v = 0 \<or> v = 1" by blast
      then have "\<forall>v \<in> set row. v = 0 \<or> v = 1"
        using set_update_subset_insert[of "grid_state a ! i" col 1] r by auto
      then show ?thesis using li r by simp
    next
      assume "row \<in> set (grid_state a)"
      with rows show ?thesis by blast
    qed
  qed
  have glines: "(lines_number a)[i := 0] ! j \<le> int j + 1 \<and>
             (0 < (lines_number a)[i := 0] ! j \<longrightarrow>
                (\<exists>tc. (lines_tile a)[i := None] ! j = Some tc \<and> g ! j ! grid_scheme j tc = 0))"
    if "j < 5" for j
  proof (cases "j = i")
    case True
    then show ?thesis using len i by simp
  next
    case False
    then show ?thesis using lines that by (simp add: g_def)
  qed
  have "board_inv a'"
    using len grows glines by (simp add: board_inv_def a' g_def)
  with cnt show ?thesis by simp
qed

lemma fold_score_line_inv:
  assumes "board_inv a" and "\<forall>i \<in> set is. i < 5"
    and "fold_e score_line is (a, u, n) = Inr (a', u', n')"
  shows "board_inv a' \<and> board_count a' + int (length u') = board_count a + int (length u)"
  using assms
proof (induction "is" arbitrary: a u n)
  case Nil
  then show ?case by simp
next
  case (Cons i "is")
  then obtain a1 u1 n1 where s: "score_line i (a, u, n) = Inr (a1, u1, n1)"
    and r: "fold_e score_line is (a1, u1, n1) = Inr (a', u', n')"
    by (auto split: sum.splits)
  from Cons.prems have i: "i < 5" and rest: "\<forall>i \<in> set is. i < 5" by simp_all
  note st = score_line_inv[OF Cons.prems(1) i s]
  from Cons.IH[OF _ rest r] st show ?case by simp
qed

lemma ScoreRound_inv:
  assumes "board_inv a" and "ScoreRound a = Inr (a', (x, used))"
  shows "board_inv a' \<and> board_count a' + int (length used) = board_count a"
proof -
  from assms(2) obtain a1 u inc where sl: "score_lines a = Inr (a1, u, inc)"
    by (auto simp: ScoreRound_def split: sum.splits)
  then have f: "fold_e score_line [0, 1, 2, 3, 4] (a, [], 0) = Inr (a1, u, inc)"
    by (simp add: score_lines_def)
  have k: "board_inv a1" "board_count a1 + int (length u) = board_count a"
    using fold_score_line_inv[OF assms(1) _ f] by simp_all
  from assms(2) sl have
    u: "used = u @ floor_tiles a1"
    and g: "grid_state a' = grid_state a1" "lines_number a' = lines_number a1"
      "lines_tile a' = lines_tile a1" "floor_tiles a' = []"
    by (auto simp: ScoreRound_def Let_def split: if_splits list.splits)
  have "board_inv a'" using k(1) g by (simp add: board_inv_def)
  moreover have "board_count a' + int (length used) = board_count a"
    using k(2) g u by (simp add: board_count_def)
  ultimately show ?thesis by simp
qed

lemma score_agent_inv:
  assumes "\<forall>a \<in> set (agents s). board_inv a" and "k < length (agents s)"
    and "score_agent k s = Inr s'"
  shows "tile_count s' = tile_count s \<and> (\<forall>a \<in> set (agents s'). board_inv a) \<and>
         length (agents s') = length (agents s)"
proof -
  from assms(3) obtain plr x used where sr: "ScoreRound (agents s ! k) = Inr (plr, (x, used))"
    and s': "s' = s\<lparr>agents := (agents s)[k := plr], bag_used := bag_used s @ used\<rparr>"
    by (auto simp: score_agent_def split: sum.splits)
  have "board_inv (agents s ! k)" using assms(1,2) by simp
  note r = ScoreRound_inv[OF this sr]
  have "tile_count s' = tile_count s"
    using r assms(2) by (simp add: s' tile_count_def map_update sum_list_update_int)
  moreover have "\<forall>a \<in> set (agents s'). board_inv a"
    using r assms(1) set_update_subset_insert[of "agents s" k plr] by (auto simp: s')
  ultimately show ?thesis by (simp add: s')
qed

lemma fold_score_agent_inv:
  assumes "\<forall>a \<in> set (agents s). board_inv a" and "\<forall>k \<in> set ks. k < length (agents s)"
    and "fold_e score_agent ks s = Inr s'"
  shows "tile_count s' = tile_count s \<and> (\<forall>a \<in> set (agents s'). board_inv a)"
  using assms
proof (induction ks arbitrary: s)
  case Nil
  then show ?case by simp
next
  case (Cons k ks)
  then obtain s1 where s: "score_agent k s = Inr s1" and r: "fold_e score_agent ks s1 = Inr s'"
    by (auto split: sum.splits)
  from Cons.prems have k: "k < length (agents s)" by simp
  note st = score_agent_inv[OF Cons.prems(1) k s]
  from st Cons.prems(2) have "\<forall>k \<in> set ks. k < length (agents s1)" by simp
  from Cons.IH[OF _ this r] st show ?case by simp
qed

lemma ENDROUND_count:
  assumes "\<forall>a \<in> set (agents s). board_inv a"
    and "generateSuccessor shuf s ENDROUND agent_id = Inr s'"
  shows "tile_count s' = tile_count s" and "\<forall>a \<in> set (agents s'). board_inv a"
proof -
  from assms(2) obtain s1 where f: "fold_e score_agent [0..<length (agents s)] s = Inr s1"
    and s': "s' = s1\<lparr>first_agent_taken := False, first_agent := next_first_agent s1,
                     next_first_agent := - 1\<rparr>"
    by (auto simp: generateSuccessor_def split: sum.splits)
  note r = fold_score_agent_inv[OF assms(1) _ f]
  show "tile_count s' = tile_count s" using r by (simp add: s' tile_count_def)
  show "\<forall>a \<in> set (agents s'). board_inv a" using r by (simp add: s')
qed

subsection \<open>Taking tiles\<close>

lemma AddToFloor_loop_count:
  "AddToFloor_loop is fl ft ts n = Inr (fl', ft', ts') \<Longrightarrow>
     length ft' + length ts' = length ft + length ts"
proof (induction "is" arbitrary: fl ft ts n)
  case Nil
  then show ?case by simp
next
  case (Cons i "is")
  show ?case
  proof (cases "fl ! i = 0")
    case True
    with Cons.prems obtain tt ts1 where ts: "ts = tt # ts1" by (cases ts) auto
    show ?thesis
    proof (cases "n - 1 = 0")
      case True
      with Cons.prems \<open>fl ! i = 0\<close> ts show ?thesis by auto
    next
      case False
      with Cons.prems \<open>fl ! i = 0\<close> ts
      have "AddToFloor_loop is (fl[i := 1]) (ft @ [tt]) ts1 (n - 1) = Inr (fl', ft', ts')" by simp
      from Cons.IH[OF this] ts show ?thesis by simp
    qed
  next
    case False
    show ?thesis
    proof (cases "n = 0")
      case True
      with Cons.prems False show ?thesis by simp
    next
      case n: False
      with Cons.prems False have "AddToFloor_loop is fl ft ts n = Inr (fl', ft', ts')" by simp
      from Cons.IH[OF this] show ?thesis .
    qed
  qed
qed

lemma AddToFloor_inv:
  assumes "AddToFloor a ts = Inr (a', ts')"
  shows "int (length (floor_tiles a')) + int (length ts')
           = int (length (floor_tiles a)) + int (length ts)"
    and "grid_state a' = grid_state a" and "lines_number a' = lines_number a"
    and "lines_tile a' = lines_tile a"
proof -
  from assms obtain fl ft where
    l: "AddToFloor_loop [0..<length (floor a)] (floor a) (floor_tiles a) ts (int (length ts))
          = Inr (fl, ft, ts')"
    and a': "a' = a\<lparr>floor := fl, floor_tiles := ft\<rparr>"
    by (auto simp: AddToFloor_def split: sum.splits)
  from AddToFloor_loop_count[OF l]
  show "int (length (floor_tiles a')) + int (length ts')
           = int (length (floor_tiles a)) + int (length ts)"
    by (simp add: a')
  show "grid_state a' = grid_state a" "lines_number a' = lines_number a"
    "lines_tile a' = lines_tile a"
    by (simp_all add: a')
qed

lemma board_inv_cong:
  "grid_state b = grid_state a \<Longrightarrow> lines_number b = lines_number a \<Longrightarrow>
   lines_tile b = lines_tile a \<Longrightarrow> board_inv b = board_inv a"
  by (simp add: board_inv_def)

lemma offered_grab_cong:
  "grid_state b = grid_state a \<Longrightarrow> lines_number b = lines_number a \<Longrightarrow>
   lines_tile b = lines_tile a \<Longrightarrow> offered_grab b tg = offered_grab a tg"
  by (simp add: offered_grab_def eligible_line_def)

lemma board_count_cong:
  "grid_state b = grid_state a \<Longrightarrow> lines_number b = lines_number a \<Longrightarrow>
   floor_tiles b = floor_tiles a \<Longrightarrow> board_count b = board_count a"
  by (simp add: board_count_def)

lemma floor_part:
  assumes "0 \<le> nf"
    and "(if nf > 0 then AddToFloor p (replicate (nat nf) t) else Inr (p, [])) = Inr (p1, ttf)"
  shows "board_count p1 + int (length ttf) = board_count p + nf"
    and "grid_state p1 = grid_state p" and "lines_number p1 = lines_number p"
    and "lines_tile p1 = lines_tile p"
proof -
  show "board_count p1 + int (length ttf) = board_count p + nf"
  proof (cases "nf > 0")
    case True
    with assms(2) have a: "AddToFloor p (replicate (nat nf) t) = Inr (p1, ttf)" by simp
    from AddToFloor_inv[OF a] True show ?thesis by (simp add: board_count_def)
  next
    case False
    with assms show ?thesis by simp
  qed
  show "grid_state p1 = grid_state p" "lines_number p1 = lines_number p"
    "lines_tile p1 = lines_tile p"
    using assms(2) AddToFloor_inv(2-4)[of p "replicate (nat nf) t" p1 ttf]
    by (auto split: if_splits)
qed

lemma place_grab_inv:
  assumes inv: "board_inv p" and off: "offered_grab p tg" and pos: "0 < number tg"
    and pg: "place_grab p tg = Inr (p', ttf)"
  shows "board_inv p' \<and> board_count p' + int (length ttf) = board_count p + number tg"
proof -
  let ?nf = "num_to_floor_line tg" and ?np = "num_to_pattern_line tg" and ?t = "tile_type tg"
  from pg obtain p1 where
    f: "(if ?nf > 0 then AddToFloor p (replicate (nat ?nf) ?t) else Inr (p, [])) = Inr (p1, ttf)"
    and l: "(if ?np > 0 then AddToPatternLine p1 (pattern_line_dest tg) ?np ?t else Inr p1) = Inr p'"
    by (auto simp: place_grab_def split: sum.splits)
  have nf: "0 \<le> ?nf" using off pos by (auto simp: offered_grab_def)
  note fp = floor_part[OF nf f]
  have inv1: "board_inv p1" using inv board_inv_cong[OF fp(2-4)] by simp
  from off show ?thesis unfolding offered_grab_def
  proof (elim disjE conjE exE)
    assume "?np = 0" "?nf = number tg"
    with l fp(1) inv1 show ?thesis by simp
  next
    fix i
    assume i: "i < 5" and el: "eligible_line p ?t i" and dest: "pattern_line_dest tg = int i"
      and np: "?np = min (number tg) (int i + 1 - lines_number p ! i)"
      and nfe: "?nf = number tg - ?np"
    from inv i have le: "lines_number p ! i \<le> int i + 1" by (simp add: board_inv_def)
    show ?thesis
    proof (cases "?np > 0")
      case False
      with np pos le have "?np = 0" by (simp add: min_def split: if_splits)
      with l fp(1) inv1 nfe show ?thesis by simp
    next
      case True
      with l dest have ap: "AddToPatternLine p1 (int i) ?np ?t = Inr p'" by simp
      have len: "length (grid_state p1) = 5" "length (lines_number p1) = 5"
        "length (lines_tile p1) = 5"
        and rows: "\<forall>row \<in> set (grid_state p1). length row = 5 \<and> (\<forall>v \<in> set row. v = 0 \<or> v = 1)"
        and lines: "\<forall>j<5. lines_number p1 ! j \<le> int j + 1 \<and>
             (0 < lines_number p1 ! j \<longrightarrow>
                (\<exists>tc. lines_tile p1 ! j = Some tc \<and> grid_state p1 ! j ! grid_scheme j tc = 0))"
        using inv1 by (simp_all add: board_inv_def)
      from ap have p': "p' = p1\<lparr>lines_number := (lines_number p1)[i := lines_number p1 ! i + ?np],
                                lines_tile := (lines_tile p1)[i := Some ?t]\<rparr>"
        and fit: "lines_number p1 ! i + ?np \<le> int i + 1"
        by (auto simp: AddToPatternLine_def Let_def split: if_splits)
      have c5: "grid_scheme i ?t < 5" using grid_scheme_less[OF i] .
      have "grid_state p ! i ! grid_scheme i ?t \<noteq> 1"
        using el i c5 by (simp add: eligible_line_def occupied_def)
      moreover have "grid_state p ! i ! grid_scheme i ?t = 0 \<or> grid_state p ! i ! grid_scheme i ?t = 1"
        using cells5(1)[OF len(1)[unfolded fp(2)] rows[unfolded fp(2)] i c5] .
      ultimately have cell: "grid_state p1 ! i ! grid_scheme i ?t = 0" using fp(2) by simp
      have cnt: "board_count p' = board_count p1 + ?np"
        using i len by (simp add: p' board_count_def sum_list_update_int)
      have glines: "lines_number p' ! j \<le> int j + 1 \<and>
             (0 < lines_number p' ! j \<longrightarrow>
                (\<exists>tc. lines_tile p' ! j = Some tc \<and> grid_state p' ! j ! grid_scheme j tc = 0))"
        if "j < 5" for j
      proof (cases "j = i")
        case True
        then show ?thesis using len i fit cell by (simp add: p')
      next
        case False
        then show ?thesis using lines that by (simp add: p')
      qed
      have "board_inv p'"
        using len rows glines by (simp add: board_inv_def p')
      with cnt fp(1) nfe show ?thesis by simp
    qed
  qed
qed

lemma py_idx_less: "py_idx n i = Some k \<Longrightarrow> k < n"
  by (auto simp: py_idx_def split: if_splits)

lemma tile_actions_shape:
  "Take kind fid tg \<in> set (tile_actions a kind' fid' t c) \<Longrightarrow>
     kind = kind' \<and> fid = fid' \<and> offered_grab a tg"
  by (auto simp: set_tile_actions floor_take_def line_take_def offered_grab_def split: if_splits)

lemma legal_take_shape:
  assumes "getLegalActions n s agent_id = Inr acts" and "Take kind fid tg \<in> set acts"
  shows "\<exists>k d. py_idx (length (agents s)) agent_id = Some k \<and>
               source_display s kind fid = Some d \<and> offered_grab (agents s ! k) tg"
proof -
  from assms obtain k where k: "py_idx (length (agents s)) agent_id = Some k"
    and acts: "acts =
      concat (map (\<lambda>fid. concat (map (\<lambda>tile.
                 tile_actions (agents s ! k) TAKE_FROM_FACTORY (int fid) tile
                   (tiles (factories s ! fid) tile)) all_tiles)) [0..<length (factories s)])
      @ concat (map (\<lambda>tile. tile_actions (agents s ! k) TAKE_FROM_CENTRE (- 1) tile
                   (tiles (centre_pool s) tile)) all_tiles)"
    by (auto simp: getLegalActions_def Let_def split: if_splits option.splits)
  from assms(2) acts consider
    (fac) f tile where "f < length (factories s)"
      "Take kind fid tg \<in> set (tile_actions (agents s ! k) TAKE_FROM_FACTORY (int f) tile
                                 (tiles (factories s ! f) tile))"
    | (cen) tile where
      "Take kind fid tg \<in> set (tile_actions (agents s ! k) TAKE_FROM_CENTRE (- 1) tile
                                 (tiles (centre_pool s) tile))"
    by auto
  then show ?thesis
  proof cases
    case fac
    from tile_actions_shape[OF fac(2)]
    have "kind = TAKE_FROM_FACTORY" "fid = int f" "offered_grab (agents s ! k) tg" by simp_all
    moreover have "py_idx (length (factories s)) (int f) = Some f"
      using fac(1) by (simp add: py_idx_def)
    ultimately show ?thesis using k by (simp add: source_display_def)
  next
    case cen
    from tile_actions_shape[OF cen]
    have "kind = TAKE_FROM_CENTRE" "offered_grab (agents s ! k) tg" by simp_all
    then show ?thesis using k by (simp add: source_display_def)
  qed
qed

lemma token_trace_fields:
  "grid_state (GiveFirstAgentToken a) = grid_state a"
  "lines_number (GiveFirstAgentToken a) = lines_number a"
  "lines_tile (GiveFirstAgentToken a) = lines_tile a"
  "floor_tiles (GiveFirstAgentToken a) = floor_tiles a"
  by (simp_all add: GiveFirstAgentToken_def)

lemma agents_update_count:
  assumes "k < length (agents s)" and "\<forall>a \<in> set (agents s). board_inv a" and "board_inv p"
  shows "sum_list (map board_count ((agents s)[k := p]))
           = sum_list (map board_count (agents s)) - board_count (agents s ! k) + board_count p"
    and "\<forall>a \<in> set ((agents s)[k := p]). board_inv a"
  using assms set_update_subset_insert[of "agents s" k p]
  by (auto simp: map_update sum_list_update_int)

lemma Take_count:
  assumes inv: "\<forall>a \<in> set (agents s). board_inv a"
    and py: "py_idx (length (agents s)) agent_id = Some k"
    and sd: "source_display s kind fid = Some d"
    and off: "offered_grab (agents s ! k) tg"
    and gs: "generateSuccessor shuf s (Take kind fid tg) agent_id = Inr s'"
  shows "tile_count s' = tile_count s \<and> (\<forall>a \<in> set (agents s'). board_inv a)"
proof -
  let ?plr = "agents s ! k"
  have k: "k < length (agents s)" using py by (rule py_idx_less)
  then have pinv: "board_inv ?plr" using inv by simp
  define plr1 where
    "plr1 = ?plr\<lparr>agent_trace := record_action (agent_trace ?plr) (Take kind fid tg)\<rparr>"
  define plr2 where
    "plr2 = (if \<not> first_agent_taken s then GiveFirstAgentToken plr1 else plr1)"
  have f1: "grid_state plr1 = grid_state ?plr" "lines_number plr1 = lines_number ?plr"
    "lines_tile plr1 = lines_tile ?plr" "floor_tiles plr1 = floor_tiles ?plr"
    by (simp_all add: plr1_def)
  have f2: "grid_state plr2 = grid_state ?plr" "lines_number plr2 = lines_number ?plr"
    "lines_tile plr2 = lines_tile ?plr" "floor_tiles plr2 = floor_tiles ?plr"
    using f1 by (simp_all add: plr2_def token_trace_fields)
  show ?thesis
  proof (cases kind)
    case TAKE_FROM_CENTRE
    from gs obtain plr3 ttf centre where
      pg: "place_grab plr2 tg = Inr (plr3, ttf)"
      and rt: "ReactionTiles (centre_pool s) (number tg) (tile_type tg) = Inr centre"
      and s': "agents s' = (agents s)[k := plr3]" "bag s' = bag s" "bag_used s' = bag_used s @ ttf"
        "factories s' = factories s" "centre_pool s' = centre"
      by (auto simp: generateSuccessor_def py Let_def TAKE_FROM_CENTRE plr1_def plr2_def
               split: sum.splits if_splits)
    note r = ReactionTiles_count[OF rt]
    have "board_inv plr2" "offered_grab plr2 tg"
      using pinv off board_inv_cong[OF f2(1-3)] offered_grab_cong[OF f2(1-3)] by simp_all
    from place_grab_inv[OF this _ pg] r
    have p3: "board_inv plr3" "board_count plr3 + int (length ttf) = board_count plr2 + number tg"
      by simp_all
    have b2: "board_count plr2 = board_count ?plr" using board_count_cong[OF f2(1,2,4)] .
    note u = agents_update_count[OF k inv p3(1)]
    have "tile_count s' = tile_count s"
      using u(1) p3(2) b2 r by (simp add: tile_count_def s')
    with u(2) show ?thesis by (simp add: s')
  next
    case TAKE_FROM_FACTORY
    from sd TAKE_FROM_FACTORY obtain f where f: "py_idx (length (factories s)) fid = Some f"
      by (auto simp: source_display_def)
    then have fl: "f < length (factories s)" by (rule py_idx_less)
    from gs obtain plr3 ttf fac centre fac' where
      pg: "place_grab plr1 tg = Inr (plr3, ttf)"
      and rt: "ReactionTiles (factories s ! f) (number tg) (tile_type tg) = Inr fac"
      and ov: "fold_e overflow_tile all_tiles (centre_pool s, fac) = Inr (centre, fac')"
      and s': "agents s' = (agents s)[k := plr3]" "bag s' = bag s" "bag_used s' = bag_used s @ ttf"
        "factories s' = (factories s)[f := fac']" "centre_pool s' = centre"
      by (auto simp: generateSuccessor_def py f Let_def TAKE_FROM_FACTORY plr1_def
               split: sum.splits if_splits)
    note r = ReactionTiles_count[OF rt]
    note o = fold_overflow_count[OF ov]
    have "board_inv plr1" "offered_grab plr1 tg"
      using pinv off board_inv_cong[OF f1(1-3)] offered_grab_cong[OF f1(1-3)] by simp_all
    from place_grab_inv[OF this _ pg] r
    have p3: "board_inv plr3" "board_count plr3 + int (length ttf) = board_count plr1 + number tg"
      by simp_all
    have b1: "board_count plr1 = board_count ?plr" using board_count_cong[OF f1(1,2,4)] .
    note u = agents_update_count[OF k inv p3(1)]
    have "tile_count s' = tile_count s"
      using u(1) p3(2) b1 r o fl
      by (simp add: tile_count_def s' map_update sum_list_update_int)
    with u(2) show ?thesis by (simp add: s')
  qed
qed

subsection \<open>Every state of a game\<close>

lemma lineage_inv:
  "lineage n s \<Longrightarrow> tile_count s = 100 \<and> (\<forall>a \<in> set (agents s). board_inv a)"
proof (induction rule: lineage.induct)
  case (fresh shuf rnd s)
  then show ?case using AzulState_init_count by blast
next
  case (succ s agent_id acts act shuf s')
  show ?case
  proof (cases act)
    case ENDROUND
    with succ ENDROUND_count[of s shuf agent_id s'] show ?thesis by simp
  next
    case STARTROUND
    with succ STARTROUND_count[of shuf s agent_id s'] show ?thesis by simp
  next
    case (Take kind fid tg)
    with succ.hyps legal_take_shape[of n s agent_id acts kind fid tg]
    obtain k d where "py_idx (length (agents s)) agent_id = Some k"
      "source_display s kind fid = Some d" "offered_grab (agents s ! k) tg"
      by blast
    from Take_count[OF _ this] succ Take show ?thesis by simp
  qed
qed

text \<open>
  C1 (as amended). In every state of a game in which \<^verbatim>\<open>"STARTROUND"\<close> is applied only to
  empty displays, the tiles in the bag, the used bag, the factories, the centre pool and on
  the boards (wall, floor line, pattern lines) number 5 colours times 20 tiles.
\<close>

theorem tile_conservation:
  assumes "lineage n s"
  shows "tile_count s = int (length all_tiles * NUM_TILE_TYPE)"
  using lineage_inv[OF assms] by (simp add: all_tiles_def NUM_TILE_TYPE_def)

theorem tile_conservation_witness:
  "lineage 2 state_after_take \<and> tile_count state_after_take = 100"
proof -
  have i: "\<not> isl (AzulState_init id 0 2)" by code_simp
  have s: "shuffles id" by (simp add: shuffles_def)
  have f: "lineage 2 state_fresh"
    using lineage.fresh[OF s, of 0 2 state_fresh] i by (simp add: state_fresh_def)
  have l: "\<not> isl (getLegalActions 2 state_fresh 0)"
    "first_take \<in> set (projr (getLegalActions 2 state_fresh 0))"
    "\<not> isl (generateSuccessor id state_fresh first_take 0)"
    by code_simp+
  have n: "first_take = STARTROUND \<longrightarrow> displays_empty state_fresh"
    by (simp add: first_take_def)
  have "lineage 2 state_after_take"
    using lineage.succ[OF f _ l(2) n s, of 0 state_after_take] l(1,3)
    by (simp add: state_after_take_def)
  with tile_conservation[of 2 state_after_take] show ?thesis
    by (simp add: all_tiles_def NUM_TILE_TYPE_def)
qed

text \<open>In the fresh state the id \<open>num_of_agent\<close> is offered \<^verbatim>\<open>"STARTROUND"\<close>; applying it deals
  the factories anew and the 20 tiles that lay on them are gone.\<close>

theorem STARTROUND_loses_tiles:
  "getLegalActions 2 state_fresh 2 = Inr [STARTROUND] \<and>
   tile_count state_fresh = 100 \<and>
   \<not> isl (generateSuccessor id state_fresh STARTROUND 2) \<and>
   tile_count (projr (generateSuccessor id state_fresh STARTROUND 2)) = 80"
  by code_simp

section \<open>The incremental hash\<close>

lemma ixor_array: "ixor v arr = Inr v' \<Longrightarrow> \<exists>a. v' = NdArray a"
  by (auto simp: ixor_def split: pyval.splits if_splits)

lemma hash_change_array: "hash_change Z c v = Inr v' \<Longrightarrow> \<exists>a. v' = NdArray a"
  by (auto simp: hash_change_def split: prod.splits option.splits sum.splits dest: ixor_array)

lemma fold_hash_change_array:
  "fold_e (hash_change Z) cs (NdArray a) = Inr v \<Longrightarrow> \<exists>b. v = NdArray b"
proof (induction cs arbitrary: a)
  case Nil
  then show ?case by auto
next
  case (Cons c cs)
  then obtain v1 where s: "hash_change Z c (NdArray a) = Inr v1"
    and r: "fold_e (hash_change Z) cs v1 = Inr v"
    by (auto split: sum.splits)
  from hash_change_array[OF s] obtain a1 where "v1 = NdArray a1" by blast
  with r Cons.IH show ?case by blast
qed

text \<open>Whatever the tables and the changes: once a change was applied, the value
  \<^verbatim>\<open>update_zobrist_hash\<close> returns is an array, never the integer a recomputation gives.\<close>

lemma update_zobrist_hash_never_int:
  assumes "update_zobrist_hash Z h (c # cs) = Inr v"
  shows "\<exists>a. v = NdArray a"
proof -
  from assms obtain v1 where s: "hash_change Z c (PyInt h) = Inr v1"
    and r: "fold_e (hash_change Z) cs v1 = Inr v"
    by (auto simp: update_zobrist_hash_def split: sum.splits)
  from hash_change_array[OF s] obtain a1 where "v1 = NdArray a1" by blast
  with r fold_hash_change_array show ?thesis by blast
qed

text \<open>
  C3 (the code departs from its docstring). \<^verbatim>\<open>update_zobrist_hash\<close> looks a change up with
  \<^verbatim>\<open>table[indices]\<close>, \<open>indices\<close> being a list, which selects whole sub-arrays along the
  first axis instead of the one entry \<^verbatim>\<open>table[i][j][k]\<close>. With tables of the shapes the
  code creates, the change "pattern line 4 of agent 0 now holds colour 0" raises IndexError
  (the first axis has 4 entries), and the change "colour 0 is now in the centre" yields a
  one-element array, not an integer.
\<close>

theorem update_zobrist_hash_fails:
  assumes "zobrist_shaped Z"
  shows "update_zobrist_hash Z h [(''pattern'', [0, 4, 0])] = Inl IndexError \<and>
         (\<exists>a. update_zobrist_hash Z h [(''center'', [0])] = Inr (NdArray a) \<and> nd_shape a = [1])"
proof -
  from assms obtain p c where p: "Z ''pattern'' = Some p" "nd_shape p = [4, 5, 5]"
    and c: "Z ''center'' = Some c" "nd_shape c = [5]"
    by (auto simp: zobrist_shaped_def table_shaped_def split: option.splits)
  have "fancy_index p [0, 4, 0] = Inl IndexError"
    using p(2) by (simp add: fancy_index_def py_idx_def)
  then have 1: "update_zobrist_hash Z h [(''pattern'', [0, 4, 0])] = Inl IndexError"
    using p(1) by (simp add: update_zobrist_hash_def hash_change_def)
  have "\<exists>a. fancy_index c [0] = Inr a \<and> nd_shape a = [1]"
    using c(2) by (simp add: fancy_index_def py_idx_def)
  then have 2: "\<exists>a. update_zobrist_hash Z h [(''center'', [0])] = Inr (NdArray a) \<and> nd_shape a = [1]"
    using c(1) by (auto simp: update_zobrist_hash_def hash_change_def ixor_def)
  from 1 2 show ?thesis by simp
qed

theorem update_zobrist_hash_fails_witness:
  "zobrist_shaped zobrist_example \<and>
   update_zobrist_hash zobrist_example 0 [(''pattern'', [0, 4, 0])] = Inl IndexError \<and>
   update_zobrist_hash zobrist_example 7 [(''center'', [0])] \<noteq> Inr (PyInt 7)"
proof -
  have z: "zobrist_shaped zobrist_example" by code_simp
  from update_zobrist_hash_fails[OF z, of 0] update_zobrist_hash_fails[OF z, of 7] z
  show ?thesis by auto
qed

end
